theory Spec2Isabelle
  imports Complex_Main
begin

section \<open>Data model\<close>

text \<open>
  The rows the exam component reads (interfaces \<open>Question\<close> and \<open>Answer\<close> of the
  database types). Both interfaces call their key \<open>id\<close>; the fields are \<open>q_id\<close> and
  \<open>a_id\<close> here. \<open>image_url\<close>, \<open>created_by\<close> and \<open>created_at\<close> are only rendered or
  never read by the controller and are left out.
\<close>

datatype category = road_sign | road_rule | general

record answer =
  a_id :: string
  question_id :: string
  answer_text :: string
  is_correct :: bool

record question =
  q_id :: string
  question_text :: string
  category :: category
  answers :: "answer list"

datatype mode = practice | mock_test | learning

text \<open>
  A JavaScript number as far as the scorer can produce one: an integer (the result of
  \<open>Math.round\<close>), \<open>NaN\<close> (from \<open>0 / 0\<close>) or \<open>Infinity\<close> (from \<open>c / 0\<close>, \<open>c > 0\<close>).
\<close>

datatype js_number = Num int | NaN | PosInfinity

section \<open>Scorer (the body of \<open>handleSubmitExam\<close>)\<close>

text \<open>
  \<open>selectedAnswers\<close> is a \<open>Record<string, string>\<close>; it is kept as an association list
  with one pair per key, so that \<open>selectedAnswers[k]\<close> is \<open>map_of\<close> (\<open>None\<close> for
  \<open>undefined\<close>) and \<open>Object.keys\<close> is \<open>map fst\<close>. JavaScript lists integer-like keys
  first and the others in insertion order; the scorer only counts, and the count does not
  depend on the order (\<open>correctCount_order\<close> below).
\<close>

type_synonym answer_map = "(string \<times> string) list"

text \<open>
  One pass of the \<open>forEach\<close> body: \<open>questions.find\<close> by id, the chosen answer, the first
  answer flagged \<open>is_correct\<close>, and the strict comparison of the chosen id with
  \<open>correctAnswer?.id\<close> (both sides may be \<open>undefined\<close>).
\<close>

definition countsAsCorrect :: "question list \<Rightarrow> answer_map \<Rightarrow> string \<Rightarrow> bool" where
  "countsAsCorrect qs sel questionId =
     (let question = find (\<lambda>q. q_id q = questionId) qs;
          selectedAnswerId = map_of sel questionId;
          correctAnswer = Option.bind question (\<lambda>q. find is_correct (answers q))
      in selectedAnswerId = map_option a_id correctAnswer)"

definition correctCount :: "question list \<Rightarrow> answer_map \<Rightarrow> nat" where
  "correctCount qs sel =
     fold (\<lambda>questionId count. if countsAsCorrect qs sel questionId then count + 1 else count)
       (map fst sel) 0"

text \<open>
  \<open>Math.round\<close> rounds to the nearest integer, a tie towards plus infinity. The source
  computes \<open>(correctCount / questions.length) * 100\<close> in double precision; the model
  computes it over the reals. The two round to the same integer for every sequence of
  fewer than 40 questions, and a session has at most 20 (the first difference is 23 right
  of 40: the double product is just below 57.5).
\<close>

definition Math_round :: "real \<Rightarrow> int" where
  "Math_round x = \<lfloor>x + 1 / 2\<rfloor>"

definition percentage :: "nat \<Rightarrow> nat \<Rightarrow> js_number" where
  "percentage c n =
     (if n = 0 then (if c = 0 then NaN else PosInfinity)
      else Num (Math_round ((of_nat c / of_nat n) * 100)))"

definition examScore :: "question list \<Rightarrow> answer_map \<Rightarrow> js_number" where
  "examScore qs sel = percentage (correctCount qs sel) (length qs)"

text \<open>\<open>score >= 70\<close>: a comparison with \<open>NaN\<close> is false.\<close>

fun js_ge :: "js_number \<Rightarrow> int \<Rightarrow> bool" where
  "js_ge (Num s) k = (k \<le> s)"
| "js_ge NaN k = False"
| "js_ge PosInfinity k = True"

section \<open>Component state and effects\<close>

text \<open>
  What the component sends out, in the order it is issued: the insert into
  \<open>exam_responses\<close> (exam, question, chosen answer, correctness), the update of the
  \<open>exams\<close> row (exam, score, passed; \<open>end_time\<close> is the wall clock and is left out),
  the toasts, and the callback \<open>onExamComplete\<close>. A request counts when it is issued;
  whether the backend then accepts it is outside the component.
\<close>

datatype effect =
    InsertResponse string string string bool
  | UpdateExam string js_number bool
  | ToastSuccess js_number
  | ToastError string
  | ExamComplete string

datatype error = TypeError

text \<open>
  The \<open>useState\<close> cells of \<open>ExamInterface\<close>, the prop \<open>mode\<close>, the environment test
  \<open>!supabaseUrl || supabaseUrl.includes('your_supabase')\<close> as \<open>demo\<close>, and the effects
  issued so far. \<open>mode\<close> and \<open>demo\<close> never change. The \<open>loading\<close> cell only selects
  the spinner and is left out.
\<close>

record exam_state =
  mode :: mode
  demo :: bool
  questions :: "question list"
  currentQuestionIndex :: nat
  selectedAnswers :: answer_map
  timeLeft :: nat
  examId :: string
  showExplanation :: bool
  effects :: "effect list"

text \<open>\<open>questions[currentQuestionIndex]\<close>: \<open>undefined\<close> out of range.\<close>

definition currentQuestion :: "exam_state \<Rightarrow> question option" where
  "currentQuestion st =
     (if currentQuestionIndex st < length (questions st)
      then Some (questions st ! currentQuestionIndex st) else None)"

text \<open>
  \<open>{...prev, [k]: v}\<close>: an existing key keeps its place and takes the new value, a new
  key goes last.
\<close>

fun spread_set :: "string \<Rightarrow> string \<Rightarrow> answer_map \<Rightarrow> answer_map" where
  "spread_set k v [] = [(k, v)]"
| "spread_set k v (p # ps) = (if fst p = k then (k, v) # ps else p # spread_set k v ps)"

section \<open>Handlers\<close>

text \<open>
  \<open>handleAnswerSelect\<close>: reading \<open>currentQuestion.id\<close> of \<open>undefined\<close> throws a
  \<open>TypeError\<close>.
\<close>

definition handleAnswerSelect :: "string \<Rightarrow> exam_state \<Rightarrow> error + exam_state" where
  "handleAnswerSelect answerId st =
     (case currentQuestion st of
        None \<Rightarrow> Inl TypeError
      | Some q \<Rightarrow>
          Inr (st\<lparr>selectedAnswers := spread_set (q_id q) answerId (selectedAnswers st),
                    showExplanation := (if mode st = learning then True else showExplanation st)\<rparr>))"

text \<open>
  \<open>saveResponse\<close>: returns early when the chosen answer is falsy (\<open>undefined\<close> or the
  empty string) and in demo mode; otherwise issues one insert.
\<close>

definition saveResponse :: "exam_state \<Rightarrow> error + exam_state" where
  "saveResponse st =
     (case currentQuestion st of
        None \<Rightarrow> Inl TypeError
      | Some q \<Rightarrow>
          (case map_of (selectedAnswers st) (q_id q) of
             None \<Rightarrow> Inr st
           | Some selectedAnswerId \<Rightarrow>
               if selectedAnswerId = [] then Inr st
               else if demo st then Inr st
               else
                 let correctAnswer = find is_correct (answers q);
                     isCorrect = (Some selectedAnswerId = map_option a_id correctAnswer)
                 in Inr (st\<lparr>effects := effects st @
                           [InsertResponse (examId st) (q_id q) selectedAnswerId isCorrect]\<rparr>)))"

text \<open>\<open>if (mode !== 'learning') await saveResponse()\<close>, shared by the two callers.\<close>

definition saveUnlessLearning :: "exam_state \<Rightarrow> error + exam_state" where
  "saveUnlessLearning st = (if mode st \<noteq> learning then saveResponse st else Inr st)"

text \<open>
  \<open>handleSubmitExam\<close>: the whole body is inside \<open>try\<close>, so a \<open>TypeError\<close> of
  \<open>saveResponse\<close> ends in the error toast. Nothing in the body tests whether the exam
  was submitted before, and no state cell is written.
\<close>

definition handleSubmitExam :: "exam_state \<Rightarrow> exam_state" where
  "handleSubmitExam st =
     (case saveUnlessLearning st of
        Inl e \<Rightarrow> st\<lparr>effects := effects st @ [ToastError ''Failed to submit exam'']\<rparr>
      | Inr st1 \<Rightarrow>
          let score = examScore (questions st1) (selectedAnswers st1);
              passed = js_ge score 70
          in if demo st1
             then st1\<lparr>effects := effects st1 @ [ToastSuccess score, ExamComplete (examId st1)]\<rparr>
             else st1\<lparr>effects := effects st1 @
                    [UpdateExam (examId st1) score passed, ToastSuccess score,
                     ExamComplete (examId st1)]\<rparr>)"

text \<open>
  A handler reads the state cells of the render that made it. When it runs later than
  that render (after an \<open>await\<close>, or from the timer's interval), the cells it reads
  and the cells that are current differ. \<open>submitFrom closure cur\<close> is the
  \<open>handleSubmitExam\<close> of the render with cells \<open>closure\<close>, invoked while the component
  is in \<open>cur\<close>: it reads \<open>closure\<close>, and adds to the effects issued so far.
\<close>

definition submitFrom :: "exam_state \<Rightarrow> exam_state \<Rightarrow> exam_state" where
  "submitFrom closure cur =
     cur\<lparr>effects := effects (handleSubmitExam (closure\<lparr>effects := effects cur\<rparr>))\<rparr>"

text \<open>
  \<open>handleNextQuestion\<close> is asynchronous. Up to \<open>await saveResponse()\<close> it is
  \<open>saveUnlessLearning\<close>, on the cells of its render; it is not inside \<open>try\<close>, so a
  \<open>TypeError\<close> of \<open>saveResponse\<close> rejects it. What follows the \<open>await\<close> is
  \<open>nextResume\<close>: the test reads the pointer and the sequence of the handler's own render
  (\<open>closure\<close>), the update \<open>prev => prev + 1\<close> applies to the pointer that is current
  when it resumes (\<open>cur\<close>), and the submission is the one of the handler's render.
  \<open>questions.length - 1\<close> is \<open>-1\<close> for an empty sequence, hence the comparison over
  \<open>int\<close>.
\<close>

definition nextResume :: "exam_state \<Rightarrow> exam_state \<Rightarrow> exam_state" where
  "nextResume closure cur =
     (if int (currentQuestionIndex closure) < int (length (questions closure)) - 1
      then cur\<lparr>currentQuestionIndex := currentQuestionIndex cur + 1, showExplanation := False\<rparr>
      else submitFrom closure cur)"

text \<open>
  \<open>handleNextQuestion st\<close> is one invocation from the click to its end with no other
  event while it waits: the two halves one after the other on the same render (in
  learning mode there is no \<open>await\<close>, and this is the only case). Invocations that
  overlap are compositions of the two halves, as in \<open>double_next_past_end\<close> below.
\<close>

definition handleNextQuestion :: "exam_state \<Rightarrow> error + exam_state" where
  "handleNextQuestion st =
     (case saveUnlessLearning st of
        Inl e \<Rightarrow> Inl e
      | Inr st1 \<Rightarrow> Inr (nextResume st st1))"

definition handlePreviousQuestion :: "exam_state \<Rightarrow> exam_state" where
  "handlePreviousQuestion st =
     (if currentQuestionIndex st > 0
      then st\<lparr>currentQuestionIndex := currentQuestionIndex st - 1, showExplanation := False\<rparr>
      else st)"

text \<open>
  One firing of the interval of the timer effect. The interval exists only while
  \<open>mode === 'mock_test' && timeLeft > 0\<close>; its updater submits when \<open>prev <= 1\<close>.
  The effect depends on \<open>[timeLeft, mode]\<close> only, so the interval is made anew at every
  tick and calls the \<open>handleSubmitExam\<close> of the render of the previous tick
  (\<open>closure\<close>), not the one of the cells that are current when it fires (\<open>cur\<close>).
\<close>

definition timerFires :: "exam_state \<Rightarrow> exam_state \<Rightarrow> exam_state" where
  "timerFires closure cur =
     (if mode cur = mock_test \<and> timeLeft cur > 0
      then (if timeLeft cur \<le> 1 then (submitFrom closure cur)\<lparr>timeLeft := 0\<rparr>
            else cur\<lparr>timeLeft := timeLeft cur - 1\<rparr>)
      else cur)"

text \<open>
  \<open>tick st\<close> is the firing at which no cell has changed since the previous tick, so
  that the render of the previous tick is the current one. It is the firing a run of
  operations uses; a firing after a change is \<open>timerFires\<close> with the two states apart,
  as in \<open>stale_timer_score\<close> below.
\<close>

definition tick :: "exam_state \<Rightarrow> exam_state" where
  "tick st = timerFires st st"

section \<open>Sessions\<close>

text \<open>
  \<open>fetchQuestions\<close>: the first 20 (mock test) or 10 rows of the pool (\<open>slice\<close> in demo
  mode, \<open>limit\<close> on the query otherwise), each with its answers shuffled, then shuffled
  as a whole. The pool (\<open>mockQuestions\<close> or the table) and the outcome of
  \<open>sort(() => Math.random() - 0.5)\<close> are parameters. A query that fails leaves the
  sequence empty and raises a toast; the loader here is the path on which the rows
  arrive.
\<close>

definition questionLimit :: "mode \<Rightarrow> nat" where
  "questionLimit m = (if m = mock_test then 20 else 10)"

definition fetchQuestions ::
  "(question list \<Rightarrow> question list) \<Rightarrow> (answer list \<Rightarrow> answer list) \<Rightarrow>
   mode \<Rightarrow> question list \<Rightarrow> question list" where
  "fetchQuestions shuffleQ shuffleA m pool =
     shuffleQ (map (\<lambda>q. q\<lparr>answers := shuffleA (answers q)\<rparr>)
                 (take (min (questionLimit m) (length pool)) pool))"

text \<open>The state after mounting, once the questions and the exam id have arrived.\<close>

definition mounted :: "mode \<Rightarrow> bool \<Rightarrow> string \<Rightarrow> question list \<Rightarrow> exam_state" where
  "mounted m d eid qs =
     \<lparr>mode = m, demo = d, questions = qs, currentQuestionIndex = 0, selectedAnswers = [],
      timeLeft = (if m = mock_test then 20 * 60 else 0), examId = eid,
      showExplanation = False, effects = []\<rparr>"

text \<open>
  The operations of the controller, and a run of them that stops at the first handler
  that throws. In a run every invocation ends before the next operation begins.
\<close>

datatype operation = SelectAnswer string | Advance | Retreat | Submit | Tick

fun perform :: "operation \<Rightarrow> exam_state \<Rightarrow> error + exam_state" where
  "perform (SelectAnswer a) st = handleAnswerSelect a st"
| "perform Advance st = handleNextQuestion st"
| "perform Retreat st = Inr (handlePreviousQuestion st)"
| "perform Submit st = Inr (handleSubmitExam st)"
| "perform Tick st = Inr (tick st)"

fun run :: "operation list \<Rightarrow> exam_state \<Rightarrow> error + exam_state" where
  "run [] st = Inr st"
| "run (x # xs) st = (case perform x st of Inl e \<Rightarrow> Inl e | Inr st' \<Rightarrow> run xs st')"

section \<open>Buttons\<close>

text \<open>
  An answer button is disabled, and its click ignored, while
  \<open>mode === 'learning' && showExplanation\<close>. Next is disabled while
  \<open>!selectedAnswerId && mode !== 'learning'\<close>, where \<open>selectedAnswerId\<close> is
  \<open>selectedAnswers[currentQuestion?.id]\<close>: it reads the key \<open>undefined\<close> when there is
  no current question, and is falsy when absent or empty. Previous is disabled at the
  first question.
\<close>

definition showResult :: "exam_state \<Rightarrow> bool" where
  "showResult st = (mode st = learning \<and> showExplanation st)"

definition clickAnswer :: "string \<Rightarrow> exam_state \<Rightarrow> error + exam_state" where
  "clickAnswer answerId st = (if showResult st then Inr st else handleAnswerSelect answerId st)"

definition nextDisabled :: "exam_state \<Rightarrow> bool" where
  "nextDisabled st =
     (let selectedAnswerId =
            (case currentQuestion st of
               None \<Rightarrow> map_of (selectedAnswers st) ''undefined''
             | Some q \<Rightarrow> map_of (selectedAnswers st) (q_id q))
      in (selectedAnswerId = None \<or> selectedAnswerId = Some []) \<and> mode st \<noteq> learning)"

definition clickNext :: "exam_state \<Rightarrow> error + exam_state" where
  "clickNext st = (if nextDisabled st then Inr st else handleNextQuestion st)"

definition clickPrevious :: "exam_state \<Rightarrow> exam_state" where
  "clickPrevious st = (if currentQuestionIndex st = 0 then st else handlePreviousQuestion st)"

text \<open>The events of the page, and a run of them that stops at the first handler that throws.\<close>

datatype ui_event = ClickAnswer string | ClickNext | ClickPrevious | TimerFires

fun ui :: "ui_event \<Rightarrow> exam_state \<Rightarrow> error + exam_state" where
  "ui (ClickAnswer a) st = clickAnswer a st"
| "ui ClickNext st = clickNext st"
| "ui ClickPrevious st = Inr (clickPrevious st)"
| "ui TimerFires st = Inr (tick st)"

fun uiRun :: "ui_event list \<Rightarrow> exam_state \<Rightarrow> error + exam_state" where
  "uiRun [] st = Inr st"
| "uiRun (e # es) st = (case ui e st of Inl err \<Rightarrow> Inl err | Inr st' \<Rightarrow> uiRun es st')"

section \<open>The count of the specification\<close>

text \<open>
  The specification's count, in its words: a question counts when an answer was chosen
  for it and the chosen identifier equals the identifier of the question's
  correctness-flagged answer (the first one flagged).
\<close>

definition spec_correct :: "answer_map \<Rightarrow> question \<Rightarrow> bool" where
  "spec_correct sel q =
     (case map_of sel (q_id q) of
        None \<Rightarrow> False
      | Some chosen \<Rightarrow>
          (case find is_correct (answers q) of
             None \<Rightarrow> False
           | Some ans \<Rightarrow> chosen = a_id ans))"

section \<open>Notions for the proofs\<close>

text \<open>
  The states the controller works on: the pointer is on a question of the sequence and
  the answer map has one pair per key (it stands for an object).
\<close>

definition wellFormed :: "exam_state \<Rightarrow> bool" where
  "wellFormed st =
     (currentQuestionIndex st < length (questions st) \<and> distinct (map fst (selectedAnswers st)))"

text \<open>
  The pass rule as a property of one issued effect: an update of the exam row carries
  \<open>passed = (score >= 70)\<close>.
\<close>

fun passRuleHolds :: "effect \<Rightarrow> bool" where
  "passRuleHolds (UpdateExam e s p) = (p = js_ge s 70)"
| "passRuleHolds x = True"

text \<open>
  What a handler issues: the insert \<open>saveResponse\<close> issues in a state (none or one),
  and what \<open>handleSubmitExam\<close> issues after its save. The handlers are shown below to
  issue exactly these (\<open>saveResponse_eq\<close>, \<open>submit_eq\<close>, \<open>next_eq\<close>).
\<close>

definition saved :: "exam_state \<Rightarrow> effect list" where
  "saved st =
     (case currentQuestion st of
        None \<Rightarrow> []
      | Some q \<Rightarrow>
          (case map_of (selectedAnswers st) (q_id q) of
             None \<Rightarrow> []
           | Some a \<Rightarrow>
               if a = [] \<or> demo st then []
               else [InsertResponse (examId st) (q_id q) a
                       (Some a = map_option a_id (find is_correct (answers q)))]))"

definition finalization :: "exam_state \<Rightarrow> effect list" where
  "finalization st =
     (let score = examScore (questions st) (selectedAnswers st)
      in (if demo st then [] else [UpdateExam (examId st) score (js_ge score 70)]) @
         [ToastSuccess score, ExamComplete (examId st)])"

text \<open>The kinds of effect that are counted.\<close>

fun isResponse :: "effect \<Rightarrow> bool" where
  "isResponse (InsertResponse e q a c) = True"
| "isResponse x = False"

fun isComplete :: "effect \<Rightarrow> bool" where
  "isComplete (ExamComplete e) = True"
| "isComplete x = False"

fun isUpdate :: "effect \<Rightarrow> bool" where
  "isUpdate (UpdateExam e s p) = True"
| "isUpdate x = False"

text \<open>
  Two states that agree on everything but the mode, the explanation flag and the
  response inserts among their effects.
\<close>

definition agree :: "exam_state \<Rightarrow> exam_state \<Rightarrow> bool" where
  "agree s t =
     (questions s = questions t \<and> currentQuestionIndex s = currentQuestionIndex t \<and>
      selectedAnswers s = selectedAnswers t \<and> demo s = demo t \<and> examId s = examId t \<and>
      timeLeft s = timeLeft t \<and>
      filter (\<lambda>e. \<not> isResponse e) (effects s) = filter (\<lambda>e. \<not> isResponse e) (effects t))"

section \<open>Sample sessions\<close>

text \<open>
  The data of the concrete instances. \<open>sampleQ k\<close> is a question \<open>q\<close>\<open>k\<close> with a wrong
  answer \<open>a\<close>\<open>k\<close> and the right answer \<open>b\<close>\<open>k\<close>; \<open>unflaggedQ\<close> has no flagged answer;
  \<open>label n\<close> is a name of \<open>n\<close> letters, for longer sequences.
\<close>

definition sampleQ :: "string \<Rightarrow> question" where
  "sampleQ k =
     \<lparr>q_id = ''q'' @ k, question_text = ''text'', category = general,
      answers = [\<lparr>a_id = ''a'' @ k, question_id = ''q'' @ k, answer_text = ''no'', is_correct = False\<rparr>,
                 \<lparr>a_id = ''b'' @ k, question_id = ''q'' @ k, answer_text = ''yes'', is_correct = True\<rparr>]\<rparr>"

definition unflaggedQ :: question where
  "unflaggedQ =
     \<lparr>q_id = ''u'', question_text = ''text'', category = road_sign,
      answers = [\<lparr>a_id = ''x'', question_id = ''u'', answer_text = ''no'', is_correct = False\<rparr>,
                 \<lparr>a_id = ''y'', question_id = ''u'', answer_text = ''no'', is_correct = False\<rparr>]\<rparr>"

definition label :: "nat \<Rightarrow> string" where
  "label n = replicate n (CHR ''i'')"

definition pool25 :: "question list" where
  "pool25 = map (\<lambda>n. sampleQ (label n)) [0..<25]"

text \<open>
  Five questions, four answered right and the last one wrong, with the pointer on the
  last.
\<close>

definition session5 :: exam_state where
  "session5 =
     (mounted practice False ''e1'' (map sampleQ [''1'', ''2'', ''3'', ''4'', ''5'']))
       \<lparr>currentQuestionIndex := 4,
        selectedAnswers := [(''q1'', ''b1''), (''q2'', ''b2''), (''q3'', ''b3''), (''q4'', ''b4''), (''q5'', ''a5'')]\<rparr>"

text \<open>
  Answering every question of a session in turn and pressing Next after each: seven of
  ten right, and nine of thirteen right.
\<close>

definition answerAll :: "string list \<Rightarrow> string list \<Rightarrow> operation list" where
  "answerAll right wrong =
     concat (map (\<lambda>k. [SelectAnswer (''b'' @ k), Advance]) right) @
     concat (map (\<lambda>k. [SelectAnswer (''a'' @ k), Advance]) wrong)"

definition run70 :: "error + exam_state" where
  "run70 = run (answerAll (map label [1..<8]) (map label [8..<11]))
             (mounted practice False ''e1'' (map (\<lambda>n. sampleQ (label n)) [1..<11]))"

definition run69 :: "error + exam_state" where
  "run69 = run (answerAll (map label [1..<10]) (map label [10..<14]))
             (mounted practice False ''e2'' (map (\<lambda>n. sampleQ (label n)) [1..<14]))"

text \<open>
  A mock test of one question with one second left, before and after the right answer
  is chosen; a practice session of
  two questions with the first one answered; a learning session of two questions on its
  first question.
\<close>

definition beforeChoice :: exam_state where
  "beforeChoice = (mounted mock_test False ''e1'' [sampleQ ''1''])\<lparr>timeLeft := 1\<rparr>"

definition lastSecond :: exam_state where
  "lastSecond =
     (mounted mock_test False ''e1'' [sampleQ ''1''])
       \<lparr>selectedAnswers := [(''q1'', ''b1'')], timeLeft := 1\<rparr>"

definition firstAnswered :: exam_state where
  "firstAnswered =
     (mounted practice False ''e1'' [sampleQ ''1'', sampleQ ''2''])
       \<lparr>selectedAnswers := [(''q1'', ''b1'')]\<rparr>"

definition learningStart :: exam_state where
  "learningStart = mounted learning False ''e1'' [sampleQ ''1'', sampleQ ''2'']"

section \<open>Auxiliary facts\<close>

lemma fold_count: "fold (\<lambda>x c. if P x then c + 1 else c) xs n = n + length (filter P xs)"
  by (induction xs arbitrary: n) auto

lemma correctCount_filter:
  "correctCount qs sel = length (filter (countsAsCorrect qs sel) (map fst sel))"
  by (simp add: correctCount_def fold_count)

lemma find_by_id:
  assumes "distinct (map q_id qs)" "q \<in> set qs"
  shows "find (\<lambda>x. q_id x = q_id q) qs = Some q"
  using assms by (induction qs) (auto simp: image_iff)

lemma find_by_id_SomeD:
  "find (\<lambda>x. q_id x = k) qs = Some q \<Longrightarrow> q \<in> set qs \<and> q_id q = k"
  by (induction qs) (auto split: if_splits)

lemma counted_keys_image:
  assumes dq: "distinct (map q_id qs)"
  shows "{k \<in> set (map fst sel). countsAsCorrect qs sel k} = q_id ` {q \<in> set qs. spec_correct sel q}"
proof (intro equalityI subsetI)
  fix k assume "k \<in> {k \<in> set (map fst sel). countsAsCorrect qs sel k}"
  then have kin: "k \<in> set (map fst sel)" and c: "countsAsCorrect qs sel k" by auto
  from kin obtain v where v: "map_of sel k = Some v"
    by (metis map_of_eq_None_iff not_None_eq set_map)
  from c v have "map_option a_id (Option.bind (find (\<lambda>x. q_id x = k) qs)
      (\<lambda>q. find is_correct (answers q))) = Some v"
    by (simp add: countsAsCorrect_def)
  then obtain q ans where q: "find (\<lambda>x. q_id x = k) qs = Some q"
     and a: "find is_correct (answers q) = Some ans" and va: "v = a_id ans"
    by (auto simp: Option.bind_eq_Some_conv)
  from find_by_id_SomeD[OF q] have "q \<in> set qs" "q_id q = k" by auto
  with v a va show "k \<in> q_id ` {q \<in> set qs. spec_correct sel q}"
    by (auto simp: spec_correct_def image_iff intro!: bexI[of _ q])
next
  fix k assume "k \<in> q_id ` {q \<in> set qs. spec_correct sel q}"
  then obtain q where qin: "q \<in> set qs" and ca: "spec_correct sel q" and k: "k = q_id q" by auto
  from ca obtain v ans where v: "map_of sel (q_id q) = Some v"
     and a: "find is_correct (answers q) = Some ans" and va: "v = a_id ans"
    by (auto simp: spec_correct_def split: option.splits)
  from v have "q_id q \<in> set (map fst sel)"
    by (metis map_of_eq_None_iff option.distinct(1) set_map)
  moreover have "countsAsCorrect qs sel (q_id q)"
    using find_by_id[OF dq qin] v a va by (simp add: countsAsCorrect_def)
  ultimately show "k \<in> {k \<in> set (map fst sel). countsAsCorrect qs sel k}" using k by simp
qed

lemma correctCount_spec:
  assumes dq: "distinct (map q_id qs)" and ds: "distinct (map fst sel)"
  shows "correctCount qs sel = length (filter (spec_correct sel) qs)"
proof -
  have inj: "inj_on q_id (set qs)" using dq by (simp add: distinct_map)
  have dqs: "distinct qs" using dq by (simp add: distinct_map)
  have "correctCount qs sel = card {k \<in> set (map fst sel). countsAsCorrect qs sel k}"
    unfolding correctCount_filter using distinct_length_filter[OF ds, of "countsAsCorrect qs sel"]
    by (simp add: Int_def conj_commute)
  also have "\<dots> = card (q_id ` {q \<in> set qs. spec_correct sel q})"
    by (simp only: counted_keys_image[OF dq])
  also have "\<dots> = card {q \<in> set qs. spec_correct sel q}"
    by (rule card_image) (rule inj_on_subset[OF inj], auto)
  also have "\<dots> = length (filter (spec_correct sel) qs)"
    using distinct_length_filter[OF dqs, of "spec_correct sel"]
    by (simp add: Int_def conj_commute)
  finally show ?thesis .
qed

text \<open>
  The order of the keys does not matter to the scorer: two association lists with one
  pair per key and the same pairs give the same count.
\<close>

lemma correctCount_order:
  assumes d: "distinct (map fst sel)" and d': "distinct (map fst sel')"
      and e: "set sel = set sel'"
  shows "correctCount qs sel = correctCount qs sel'"
proof -
  have m: "map_of sel = map_of sel'" using d d' e by (simp add: map_of_inject_set)
  then have c: "countsAsCorrect qs sel = countsAsCorrect qs sel'"
    by (simp add: countsAsCorrect_def fun_eq_iff)
  have k: "set (map fst sel) = set (map fst sel')" using e by simp
  have "correctCount qs sel = card ({k. countsAsCorrect qs sel k} \<inter> set (map fst sel))"
    unfolding correctCount_filter by (rule distinct_length_filter[OF d])
  also have "\<dots> = card ({k. countsAsCorrect qs sel' k} \<inter> set (map fst sel'))"
    by (simp only: c k)
  also have "\<dots> = correctCount qs sel'"
    unfolding correctCount_filter by (rule distinct_length_filter[OF d', symmetric])
  finally show ?thesis .
qed

lemma map_of_spread_set: "map_of (spread_set k v al) = (map_of al)(k \<mapsto> v)"
  by (induction al) (auto simp: fun_eq_iff)

lemma keys_spread_set: "set (map fst (spread_set k v al)) = insert k (set (map fst al))"
  by (induction al) auto

lemma distinct_spread_set:
  "distinct (map fst al) \<Longrightarrow> distinct (map fst (spread_set k v al))"
  by (induction al) (auto simp: keys_spread_set simp flip: set_map)

lemma length_spread_set:
  "length (spread_set k v al) = (if k \<in> fst ` set al then length al else Suc (length al))"
  by (induction al) auto

lemma map_of_filter_key:
  "map_of (filter (\<lambda>p. fst p \<noteq> k) al) = (map_of al)(k := None)"
  by (induction al) (auto simp: fun_eq_iff)

lemma Math_round_percent:
  assumes "c \<le> n" "0 < n"
  shows "0 \<le> Math_round ((of_nat c / of_nat n) * 100)" "Math_round ((of_nat c / of_nat n) * 100) \<le> 100"
proof -
  let ?x = "(of_nat c / of_nat n) * (100::real)"
  have "0 \<le> ?x" by simp
  then show "0 \<le> Math_round ?x" by (simp add: Math_round_def)
  have "of_nat c / of_nat n \<le> (1::real)" using assms by simp
  then have "(of_nat c / of_nat n) * (100::real) \<le> 1 * 100"
    by (rule mult_right_mono) simp
  then have "?x + 1/2 < 101" by linarith
  then have "\<lfloor>?x + 1/2\<rfloor> < 101" by (simp add: floor_less_iff)
  then show "Math_round ?x \<le> 100" by (simp add: Math_round_def)
qed

lemma Math_round_div:
  assumes "0 < n"
  shows "Math_round ((of_nat c / of_nat n) * 100) = (200 * int c + int n) div (2 * int n)"
proof -
  have "(of_nat c / of_nat n) * 100 + 1 / 2 = (of_int (200 * int c + int n) :: real) / of_int (2 * int n)"
    using assms by (simp add: field_simps)
  then show ?thesis
    unfolding Math_round_def by (simp only: floor_divide_of_int_eq)
qed

lemma saveResponse_frame:
  "saveResponse st = Inr st1 \<Longrightarrow>
     questions st1 = questions st \<and> selectedAnswers st1 = selectedAnswers st \<and>
     currentQuestionIndex st1 = currentQuestionIndex st \<and> mode st1 = mode st \<and>
     demo st1 = demo st \<and> examId st1 = examId st \<and> timeLeft st1 = timeLeft st \<and>
     showExplanation st1 = showExplanation st"
  by (auto simp: saveResponse_def Let_def split: option.splits if_splits)

lemma saveUnlessLearning_frame:
  "saveUnlessLearning st = Inr st1 \<Longrightarrow>
     questions st1 = questions st \<and> selectedAnswers st1 = selectedAnswers st \<and>
     currentQuestionIndex st1 = currentQuestionIndex st \<and> mode st1 = mode st \<and>
     demo st1 = demo st \<and> examId st1 = examId st \<and> timeLeft st1 = timeLeft st \<and>
     showExplanation st1 = showExplanation st"
  by (auto simp: saveUnlessLearning_def dest: saveResponse_frame split: if_splits)

lemma saveUnlessLearning_ok:
  "currentQuestionIndex st < length (questions st) \<Longrightarrow> \<exists>st1. saveUnlessLearning st = Inr st1"
  by (auto simp: saveUnlessLearning_def saveResponse_def currentQuestion_def Let_def split: option.splits)

lemma submit_frame:
  "questions (handleSubmitExam st) = questions st \<and>
   selectedAnswers (handleSubmitExam st) = selectedAnswers st \<and>
   currentQuestionIndex (handleSubmitExam st) = currentQuestionIndex st \<and>
   mode (handleSubmitExam st) = mode st \<and> demo (handleSubmitExam st) = demo st \<and>
   examId (handleSubmitExam st) = examId st \<and> timeLeft (handleSubmitExam st) = timeLeft st \<and>
   showExplanation (handleSubmitExam st) = showExplanation st"
proof (cases "saveUnlessLearning st")
  case (Inl a)
  then show ?thesis by (simp add: handleSubmitExam_def)
next
  case (Inr st1)
  from saveUnlessLearning_frame[OF Inr] Inr show ?thesis
    by (simp add: handleSubmitExam_def Let_def)
qed

lemma submit_only_effects:
  "handleSubmitExam st = st\<lparr>effects := effects (handleSubmitExam st)\<rparr>"
  by (rule exam_state.equality) (simp_all add: submit_frame)

lemma save_only_effects:
  assumes "saveUnlessLearning st = Inr st1"
  shows "st\<lparr>effects := effects st1\<rparr> = st1"
  using saveUnlessLearning_frame[OF assms] by (intro exam_state.equality) simp_all

lemma submitFrom_self: "submitFrom st st = handleSubmitExam st"
  using submit_only_effects[of st] by (simp add: submitFrom_def)

text \<open>
  The invocation with nothing in between, written out: the form in which the handler
  reads in the source when its \<open>await\<close> returns at once.
\<close>

lemma handleNextQuestion_unfold:
  "handleNextQuestion st =
     (case saveUnlessLearning st of
        Inl e \<Rightarrow> Inl e
      | Inr st1 \<Rightarrow>
          if int (currentQuestionIndex st1) < int (length (questions st1)) - 1
          then Inr (st1\<lparr>currentQuestionIndex := currentQuestionIndex st1 + 1,
                         showExplanation := False\<rparr>)
          else Inr (handleSubmitExam st1))"
proof (cases "saveUnlessLearning st")
  case (Inl e)
  then show ?thesis by (simp add: handleNextQuestion_def)
next
  case (Inr st1)
  note f = saveUnlessLearning_frame[OF Inr]
  have "submitFrom st st1 = handleSubmitExam st1"
    using submit_only_effects[of st1] by (simp add: submitFrom_def save_only_effects[OF Inr])
  with f Inr show ?thesis by (simp add: handleNextQuestion_def nextResume_def)
qed

lemma tick_unfold:
  "tick st =
     (if mode st = mock_test \<and> timeLeft st > 0
      then (if timeLeft st \<le> 1 then (handleSubmitExam st)\<lparr>timeLeft := 0\<rparr>
            else st\<lparr>timeLeft := timeLeft st - 1\<rparr>)
      else st)"
  by (simp add: tick_def timerFires_def submitFrom_self)

lemma submit_reports_score:
  assumes "currentQuestionIndex st < length (questions st)"
  shows "ToastSuccess (examScore (questions st) (selectedAnswers st)) \<in> set (effects (handleSubmitExam st))"
proof -
  from saveUnlessLearning_ok[OF assms] obtain st1 where s: "saveUnlessLearning st = Inr st1" by blast
  from saveUnlessLearning_frame[OF s] show ?thesis
    by (simp add: handleSubmitExam_def s Let_def)
qed

lemma session5_pre:
  "currentQuestionIndex session5 < length (questions session5)"
  "distinct (map q_id (questions session5))"
  "distinct (map fst (selectedAnswers session5))"
  by (simp_all add: session5_def mounted_def sampleQ_def)

lemma session5_count:
  "length (filter (spec_correct (selectedAnswers session5)) (questions session5)) = 4"
  by (simp add: session5_def mounted_def sampleQ_def spec_correct_def)

section \<open>Scoring\<close>

text \<open>
  What one invocation of \<open>handleSubmitExam\<close> reports, from the cells it reads. When
  the pointer is on a question (so the sequence is not empty), the questions have
  distinct identifiers (they are primary keys) and the answer map has one pair per key,
  the score is the nearest integer to \<open>100 * correctCount / totalQuestions\<close>, a tie
  going up: \<open>correctCount\<close> is the number of questions of the sequence whose chosen
  answer is the question's flagged answer, \<open>totalQuestions\<close> is the length of the whole
  sequence, so a question without a choice counts as incorrect; the score is between 0
  and 100.
\<close>

lemma score_of_invocation:
  assumes idx: "currentQuestionIndex st < length (questions st)"
      and dq: "distinct (map q_id (questions st))"
      and ds: "distinct (map fst (selectedAnswers st))"
  shows "ToastSuccess (examScore (questions st) (selectedAnswers st)) \<in> set (effects (handleSubmitExam st))
       \<and> (\<exists>s. examScore (questions st) (selectedAnswers st) = Num s
             \<and> s = round (100 * real (length (filter (spec_correct (selectedAnswers st)) (questions st)))
                          / real (length (questions st)))
             \<and> s = (200 * int (length (filter (spec_correct (selectedAnswers st)) (questions st)))
                      + int (length (questions st))) div (2 * int (length (questions st)))
             \<and> 0 \<le> s \<and> s \<le> 100)"
proof -
  let ?qs = "questions st" and ?sel = "selectedAnswers st"
  let ?c = "length (filter (spec_correct ?sel) ?qs)"
  have n: "0 < length ?qs" using idx by auto
  have c: "correctCount ?qs ?sel = ?c" by (rule correctCount_spec[OF dq ds])
  have le: "?c \<le> length ?qs" by simp
  have sc: "examScore ?qs ?sel = Num (Math_round ((of_nat ?c / of_nat (length ?qs)) * 100))"
    using n by (simp add: examScore_def percentage_def c)
  have eq: "(of_nat ?c / of_nat (length ?qs)) * (100::real) = 100 * of_nat ?c / of_nat (length ?qs)"
    by simp
  have r: "Math_round ((of_nat ?c / of_nat (length ?qs)) * 100)
             = round (100 * real ?c / real (length ?qs))"
    by (simp only: eq) (simp add: Math_round_def round_def)
  have d: "Math_round ((of_nat ?c / of_nat (length ?qs)) * 100)
             = (200 * int ?c + int (length ?qs)) div (2 * int (length ?qs))"
    by (rule Math_round_div[OF n])
  have b: "0 \<le> Math_round ((of_nat ?c / of_nat (length ?qs)) * 100)"
          "Math_round ((of_nat ?c / of_nat (length ?qs)) * 100) \<le> 100"
    by (rule Math_round_percent[OF le n])+
  show ?thesis
    using submit_reports_score[OF idx] sc r d b by metis
qed

lemma score_of_invocation_instance:
  "currentQuestionIndex session5 < length (questions session5)
   \<and> distinct (map q_id (questions session5))
   \<and> distinct (map fst (selectedAnswers session5))
   \<and> examScore (questions session5) (selectedAnswers session5) = Num 80
   \<and> ToastSuccess (Num 80) \<in> set (effects (handleSubmitExam session5))"
proof -
  have len: "length (questions session5) = 5" by (simp add: session5_def mounted_def)
  from score_of_invocation[OF session5_pre]
  have t: "ToastSuccess (examScore (questions session5) (selectedAnswers session5))
             \<in> set (effects (handleSubmitExam session5))"
    and e: "examScore (questions session5) (selectedAnswers session5)
             = Num ((200 * int 4 + int 5) div (2 * int 5))"
    by (auto simp only: session5_count len)
  from e have e': "examScore (questions session5) (selectedAnswers session5) = Num 80"
    by simp
  from t e' show ?thesis using session5_pre by simp
qed

text \<open>
  C1. The code does not compute this score from the answers that are chosen when the
  countdown expires. The instance is a mock test of one question with one second left.
  The learner chooses the right answer during the last second, which leads from
  \<open>beforeChoice\<close> to \<open>lastSecond\<close>. The interval then fires with the handler of the
  render of the previous tick, in which nothing was chosen: nothing is saved, and the
  score it reports is 0, not passed. One question of one is answered right, so the score
  of the claim is 100, and 100 is what a submission from the current render reports.
\<close>

theorem stale_timer_score:
  "handleAnswerSelect ''b1'' beforeChoice = Inr lastSecond
   \<and> timerFires beforeChoice lastSecond
       = lastSecond\<lparr>timeLeft := 0,
           effects := [UpdateExam ''e1'' (Num 0) False, ToastSuccess (Num 0), ExamComplete ''e1'']\<rparr>
   \<and> length (filter (spec_correct (selectedAnswers lastSecond)) (questions lastSecond)) = 1
   \<and> length (questions lastSecond) = 1
   \<and> handleSubmitExam lastSecond
       = lastSecond\<lparr>effects := [InsertResponse ''e1'' ''q1'' ''b1'' True,
           UpdateExam ''e1'' (Num 100) True, ToastSuccess (Num 100), ExamComplete ''e1'']\<rparr>"
  by code_simp

section \<open>The pass rule\<close>

lemma passRule_save:
  "saveResponse st = Inr st1 \<Longrightarrow> list_all passRuleHolds (effects st) \<Longrightarrow>
     list_all passRuleHolds (effects st1)"
  by (auto simp: saveResponse_def Let_def split: option.splits if_splits)

lemma passRule_saveUnless:
  "saveUnlessLearning st = Inr st1 \<Longrightarrow> list_all passRuleHolds (effects st) \<Longrightarrow>
     list_all passRuleHolds (effects st1)"
  by (auto simp: saveUnlessLearning_def dest: passRule_save split: if_splits)

lemma passRule_submit:
  assumes "list_all passRuleHolds (effects st)"
  shows "list_all passRuleHolds (effects (handleSubmitExam st))"
proof (cases "saveUnlessLearning st")
  case (Inl a)
  with assms show ?thesis by (simp add: handleSubmitExam_def)
next
  case (Inr st1)
  from passRule_saveUnless[OF Inr assms] Inr show ?thesis
    by (simp add: handleSubmitExam_def Let_def)
qed

lemma passRule_next:
  assumes "list_all passRuleHolds (effects st)" "handleNextQuestion st = Inr st'"
  shows "list_all passRuleHolds (effects st')"
proof -
  from assms(2) obtain st1 where s: "saveUnlessLearning st = Inr st1"
    by (auto simp: handleNextQuestion_unfold split: sum.splits)
  note p1 = passRule_saveUnless[OF s assms(1)]
  from assms(2) s have "st' = handleSubmitExam st1 \<or> effects st' = effects st1"
    by (auto simp: handleNextQuestion_unfold split: if_splits)
  with p1 passRule_submit[OF p1] show ?thesis by auto
qed

lemma passRule_tick:
  assumes "list_all passRuleHolds (effects st)"
  shows "list_all passRuleHolds (effects (tick st))"
  using assms passRule_submit[OF assms] by (simp add: tick_unfold)

lemma passRule_perform:
  assumes "list_all passRuleHolds (effects st)" "perform x st = Inr st'"
  shows "list_all passRuleHolds (effects st')"
proof (cases x)
  case (SelectAnswer a)
  with assms show ?thesis
    by (auto simp: handleAnswerSelect_def split: option.splits)
next
  case Advance
  with assms passRule_next show ?thesis by simp
next
  case Retreat
  with assms show ?thesis by (auto simp: handlePreviousQuestion_def split: if_splits)
next
  case Submit
  with assms passRule_submit show ?thesis by auto
next
  case Tick
  with assms passRule_tick show ?thesis by auto
qed

lemma passRule_run:
  "list_all passRuleHolds (effects st) \<Longrightarrow> run xs st = Inr st' \<Longrightarrow>
     list_all passRuleHolds (effects st')"
proof (induction xs arbitrary: st)
  case Nil
  then show ?case by simp
next
  case (Cons x xs)
  from Cons.prems(2) obtain st1 where p: "perform x st = Inr st1" and r: "run xs st1 = Inr st'"
    by (auto split: sum.splits)
  from Cons.IH[OF passRule_perform[OF Cons.prems(1) p] r] show ?case .
qed

text \<open>
  The same holds of a handler that runs later than its render: whatever cells it reads,
  an update of the exam row it issues obeys the pass rule, and it writes no cell but the
  pointer, the explanation flag and the remaining time.
\<close>

lemma passRule_submitFrom:
  assumes "list_all passRuleHolds (effects cur)"
  shows "list_all passRuleHolds (effects (submitFrom closure cur))"
  using passRule_submit[of "closure\<lparr>effects := effects cur\<rparr>"] assms
  by (simp add: submitFrom_def)

lemma passRule_timerFires:
  assumes "list_all passRuleHolds (effects cur)"
  shows "list_all passRuleHolds (effects (timerFires closure cur))"
  using assms passRule_submitFrom[OF assms, of closure] by (simp add: timerFires_def)

lemma passRule_nextResume:
  assumes "list_all passRuleHolds (effects cur)"
  shows "list_all passRuleHolds (effects (nextResume closure cur))"
  using assms passRule_submitFrom[OF assms, of closure] by (simp add: nextResume_def)

lemma later_handlers_frame:
  "questions (timerFires closure cur) = questions cur"
  "selectedAnswers (timerFires closure cur) = selectedAnswers cur"
  "currentQuestionIndex (timerFires closure cur) = currentQuestionIndex cur"
  "questions (nextResume closure cur) = questions cur"
  "selectedAnswers (nextResume closure cur) = selectedAnswers cur"
  by (simp_all add: timerFires_def nextResume_def submitFrom_def)

text \<open>
  C2. In every state a session reaches, each update of the exam row that was issued
  carries \<open>passed\<close> true exactly when its score is at least 70 (false for \<open>NaN\<close>).
  The instance below has a session of ten questions with seven right, finalized with
  score 70 and passed, and one of thirteen with nine right, finalized with score 69 and
  not passed.
\<close>

theorem passed_iff_score_ge_70:
  assumes "run xs (mounted m d eid qs) = Inr st"
      and "UpdateExam e s p \<in> set (effects st)"
  shows "case s of Num k \<Rightarrow> p = (70 \<le> k) | NaN \<Rightarrow> \<not> p | PosInfinity \<Rightarrow> p"
proof -
  have "list_all passRuleHolds (effects (mounted m d eid qs))" by (simp add: mounted_def)
  from passRule_run[OF this assms(1)] assms(2) have "passRuleHolds (UpdateExam e s p)"
    by (auto simp: list_all_iff)
  then show ?thesis by (cases s) auto
qed

lemma run70_update:
  "\<not> isl run70 \<and> UpdateExam ''e1'' (Num 70) True \<in> set (effects (projr run70))"
  by code_simp

lemma run69_update:
  "\<not> isl run69 \<and> UpdateExam ''e2'' (Num 69) False \<in> set (effects (projr run69))"
  by code_simp

theorem passed_iff_score_ge_70_witness:
  "(\<exists>st. run70 = Inr st \<and> UpdateExam ''e1'' (Num 70) True \<in> set (effects st) \<and> True = ((70::int) \<le> 70))
   \<and> (\<exists>st. run69 = Inr st \<and> UpdateExam ''e2'' (Num 69) False \<in> set (effects st) \<and> False = ((70::int) \<le> 69))"
proof -
  obtain st where st: "st = projr run70" by simp
  obtain st' where st': "st' = projr run69" by simp
  have a: "run70 = Inr st" and b: "UpdateExam ''e1'' (Num 70) True \<in> set (effects st)"
    using run70_update by (simp_all add: st)
  have a': "run69 = Inr st'" and b': "UpdateExam ''e2'' (Num 69) False \<in> set (effects st')"
    using run69_update by (simp_all add: st')
  have c: "True = ((70::int) \<le> 70)"
    using passed_iff_score_ge_70[OF a[unfolded run70_def] b] by simp
  have c': "False = ((70::int) \<le> 69)"
    using passed_iff_score_ge_70[OF a'[unfolded run69_def] b'] by simp
  have l: "\<exists>st. run70 = Inr st \<and> UpdateExam ''e1'' (Num 70) True \<in> set (effects st) \<and> True = ((70::int) \<le> 70)"
    using a b c by (intro exI[of _ st] conjI)
  have r: "\<exists>st. run69 = Inr st \<and> UpdateExam ''e2'' (Num 69) False \<in> set (effects st) \<and> False = ((70::int) \<le> 69)"
    using a' b' c' by (intro exI[of _ st'] conjI)
  from l r show ?thesis by (rule conjI)
qed

section \<open>Questions without a flagged answer\<close>

lemma unflagged_not_answered:
  assumes "\<forall>a\<in>set (answers q). \<not> is_correct a"
  shows "\<not> spec_correct sel q"
proof -
  from assms have "find is_correct (answers q) = None" by (simp add: find_None_iff)
  then show ?thesis by (simp add: spec_correct_def split: option.splits)
qed

text \<open>
  C4. A question of the sequence none of whose answers carries the flag (a question
  with no answers among them): whatever answer is chosen for it, the scorer's test for
  its key fails, and the score is the score of the same session with that question left
  unanswered; the denominator is the length of the whole sequence in both.
\<close>

theorem unflagged_never_correct:
  assumes qin: "q \<in> set qs"
      and dq: "distinct (map q_id qs)"
      and ds: "distinct (map fst sel)"
      and nf: "\<forall>a\<in>set (answers q). \<not> is_correct a"
  shows "\<not> countsAsCorrect qs (spread_set (q_id q) chosen sel) (q_id q)
       \<and> examScore qs (spread_set (q_id q) chosen sel)
           = percentage (correctCount qs (filter (\<lambda>p. fst p \<noteq> q_id q) sel)) (length qs)"
proof -
  let ?k = "q_id q"
  let ?sel1 = "spread_set ?k chosen sel" and ?sel2 = "filter (\<lambda>p. fst p \<noteq> ?k) sel"
  from nf have none: "find is_correct (answers q) = None" by (simp add: find_None_iff)
  have first: "\<not> countsAsCorrect qs ?sel1 ?k"
    by (simp add: countsAsCorrect_def find_by_id[OF dq qin] none map_of_spread_set)
  have d1: "distinct (map fst ?sel1)" by (rule distinct_spread_set[OF ds])
  have d2: "distinct (map fst ?sel2)" using ds by (rule distinct_map_filter)
  have same: "spec_correct ?sel1 x = spec_correct ?sel2 x" if x: "x \<in> set qs" for x
  proof (cases "q_id x = ?k")
    case True
    with dq x qin have "x = q" by (auto simp: distinct_map inj_on_def)
    with unflagged_not_answered[OF nf] show ?thesis by simp
  next
    case False
    then show ?thesis
      by (simp add: spec_correct_def map_of_spread_set map_of_filter_key)
  qed
  have "correctCount qs ?sel1 = length (filter (spec_correct ?sel1) qs)"
    by (rule correctCount_spec[OF dq d1])
  also have "\<dots> = length (filter (spec_correct ?sel2) qs)"
    using same by (simp cong: filter_cong)
  also have "\<dots> = correctCount qs ?sel2"
    by (rule correctCount_spec[OF dq d2, symmetric])
  finally have "examScore qs ?sel1 = percentage (correctCount qs ?sel2) (length qs)"
    by (simp add: examScore_def)
  with first show ?thesis by simp
qed

theorem unflagged_never_correct_witness:
  "unflaggedQ \<in> set [sampleQ ''1'', unflaggedQ]
   \<and> distinct (map q_id [sampleQ ''1'', unflaggedQ])
   \<and> distinct (map fst [(''q1'', ''b1'')])
   \<and> list_all (\<lambda>a. \<not> is_correct a) (answers unflaggedQ)
   \<and> \<not> countsAsCorrect [sampleQ ''1'', unflaggedQ] [(''q1'', ''b1''), (''u'', ''x'')] ''u''
   \<and> examScore [sampleQ ''1'', unflaggedQ] [(''q1'', ''b1''), (''u'', ''x'')] = Num 50"
proof -
  have h1: "unflaggedQ \<in> set [sampleQ ''1'', unflaggedQ]" by simp
  have h2: "distinct (map q_id [sampleQ ''1'', unflaggedQ])"
    by (simp add: sampleQ_def unflaggedQ_def)
  have h3: "distinct (map fst [(''q1'', ''b1'')])" by simp
  have h4: "\<forall>a\<in>set (answers unflaggedQ). \<not> is_correct a" by (simp add: unflaggedQ_def)
  have k: "q_id unflaggedQ = ''u''" by (simp add: unflaggedQ_def)
  have c: "correctCount [sampleQ ''1'', unflaggedQ] [(''q1'', ''b1'')] = Suc 0"
    by (simp add: correctCount_def countsAsCorrect_def sampleQ_def unflaggedQ_def)
  have p: "percentage (Suc 0) (Suc (Suc 0)) = Num 50"
    by (simp add: percentage_def Math_round_def)
  from unflagged_never_correct[OF h1 h2 h3 h4, of "''x''"]
  have "\<not> countsAsCorrect [sampleQ ''1'', unflaggedQ] [(''q1'', ''b1''), (''u'', ''x'')] ''u''
       \<and> examScore [sampleQ ''1'', unflaggedQ] [(''q1'', ''b1''), (''u'', ''x'')] = Num 50"
    by (simp add: k c p)
  with h1 h2 h3 h4 show ?thesis by (simp add: list_all_iff)
qed

section \<open>Well-formed states\<close>

lemma currentQuestion_Some:
  "currentQuestionIndex st < length (questions st) \<Longrightarrow>
     currentQuestion st = Some (questions st ! currentQuestionIndex st)"
  by (simp add: currentQuestion_def)

lemma saveUnlessLearning_wf:
  "saveUnlessLearning st = Inr st1 \<Longrightarrow> wellFormed st1 = wellFormed st"
  by (drule saveUnlessLearning_frame) (simp add: wellFormed_def)

lemma submit_wf: "wellFormed (handleSubmitExam st) = wellFormed st"
  by (simp add: wellFormed_def submit_frame)

lemma tick_frame:
  "questions (tick st) = questions st \<and> selectedAnswers (tick st) = selectedAnswers st \<and>
   currentQuestionIndex (tick st) = currentQuestionIndex st \<and> mode (tick st) = mode st \<and>
   demo (tick st) = demo st \<and> examId (tick st) = examId st \<and>
   showExplanation (tick st) = showExplanation st"
  by (simp add: tick_unfold submit_frame)

lemma previous_frame:
  "questions (handlePreviousQuestion st) = questions st \<and>
   selectedAnswers (handlePreviousQuestion st) = selectedAnswers st \<and>
   mode (handlePreviousQuestion st) = mode st \<and> demo (handlePreviousQuestion st) = demo st \<and>
   examId (handlePreviousQuestion st) = examId st \<and>
   timeLeft (handlePreviousQuestion st) = timeLeft st \<and>
   effects (handlePreviousQuestion st) = effects st"
  by (simp add: handlePreviousQuestion_def)

lemma next_cases:
  assumes "currentQuestionIndex st < length (questions st)"
  obtains st1 where "saveUnlessLearning st = Inr st1"
    and "Suc (currentQuestionIndex st) < length (questions st) \<Longrightarrow>
           handleNextQuestion st =
             Inr (st1\<lparr>currentQuestionIndex := Suc (currentQuestionIndex st), showExplanation := False\<rparr>)"
    and "Suc (currentQuestionIndex st) = length (questions st) \<Longrightarrow>
           handleNextQuestion st = Inr (handleSubmitExam st1)"
proof -
  from saveUnlessLearning_ok[OF assms] obtain st1 where s: "saveUnlessLearning st = Inr st1" by blast
  note f = saveUnlessLearning_frame[OF s]
  have a: "handleNextQuestion st =
             Inr (st1\<lparr>currentQuestionIndex := Suc (currentQuestionIndex st), showExplanation := False\<rparr>)"
    if "Suc (currentQuestionIndex st) < length (questions st)"
    using that f by (simp add: handleNextQuestion_unfold s)
  have b: "handleNextQuestion st = Inr (handleSubmitExam st1)"
    if "Suc (currentQuestionIndex st) = length (questions st)"
    using that f by (simp add: handleNextQuestion_unfold s)
  from s a b that show ?thesis by blast
qed

lemma next_wf:
  assumes "wellFormed st"
  shows "\<exists>st'. handleNextQuestion st = Inr st' \<and> wellFormed st' \<and> questions st' = questions st
           \<and> mode st' = mode st \<and> demo st' = demo st \<and> examId st' = examId st"
proof -
  from assms have idx: "currentQuestionIndex st < length (questions st)"
    by (simp add: wellFormed_def)
  obtain st1 where s: "saveUnlessLearning st = Inr st1"
    and a: "Suc (currentQuestionIndex st) < length (questions st) \<Longrightarrow>
           handleNextQuestion st =
             Inr (st1\<lparr>currentQuestionIndex := Suc (currentQuestionIndex st), showExplanation := False\<rparr>)"
    and b: "Suc (currentQuestionIndex st) = length (questions st) \<Longrightarrow>
           handleNextQuestion st = Inr (handleSubmitExam st1)"
    by (rule next_cases[OF idx]) blast
  note f = saveUnlessLearning_frame[OF s]
  from idx consider "Suc (currentQuestionIndex st) < length (questions st)"
    | "Suc (currentQuestionIndex st) = length (questions st)" by linarith
  then show ?thesis
  proof cases
    case 1
    with a f assms show ?thesis by (simp add: wellFormed_def)
  next
    case 2
    with b f assms show ?thesis by (simp add: wellFormed_def submit_frame)
  qed
qed

lemma select_wf:
  assumes "wellFormed st"
  shows "\<exists>st'. handleAnswerSelect a st = Inr st' \<and> wellFormed st' \<and> questions st' = questions st
           \<and> mode st' = mode st \<and> demo st' = demo st \<and> examId st' = examId st"
  using assms
  by (simp add: wellFormed_def handleAnswerSelect_def currentQuestion_def distinct_spread_set)

lemma perform_wf:
  assumes "wellFormed st"
  shows "\<exists>st'. perform x st = Inr st' \<and> wellFormed st' \<and> questions st' = questions st
           \<and> mode st' = mode st \<and> demo st' = demo st \<and> examId st' = examId st"
proof (cases x)
  case (SelectAnswer a)
  with select_wf[OF assms] show ?thesis by simp
next
  case Advance
  with next_wf[OF assms] show ?thesis by simp
next
  case Retreat
  with assms show ?thesis by (auto simp: wellFormed_def handlePreviousQuestion_def)
next
  case Submit
  with assms show ?thesis by (simp add: submit_wf submit_frame)
next
  case Tick
  with assms show ?thesis by (simp add: wellFormed_def tick_frame)
qed

lemma run_wf:
  "wellFormed st \<Longrightarrow>
     \<exists>st'. run xs st = Inr st' \<and> wellFormed st' \<and> questions st' = questions st
           \<and> mode st' = mode st \<and> demo st' = demo st \<and> examId st' = examId st"
proof (induction xs arbitrary: st)
  case Nil
  then show ?case by simp
next
  case (Cons x xs)
  from perform_wf[OF Cons.prems, of x] obtain st1 where p: "perform x st = Inr st1"
    and w: "wellFormed st1" and q: "questions st1 = questions st" "mode st1 = mode st"
      "demo st1 = demo st" "examId st1 = examId st"
    by blast
  from Cons.IH[OF w] p q show ?case by auto
qed

lemma mounted_wf: "qs \<noteq> [] \<Longrightarrow> wellFormed (mounted m d eid qs)"
  by (simp add: wellFormed_def mounted_def)

section \<open>Selecting an answer\<close>

text \<open>
  C5. In every state a session with a non-empty sequence reaches, the answer map has
  at most one pair per key, and \<open>handleAnswerSelect\<close> returns a state in which the key
  of the current question maps to the new answer, every other key maps to what it
  mapped to before, the map still has at most one pair per key, and the pointer and the
  sequence are unchanged; a second selection on the same question replaces the first
  and does not lengthen the map.
\<close>

theorem select_overwrites_current:
  assumes ne: "qs \<noteq> []"
      and r: "run xs (mounted m d eid qs) = Inr st"
  shows "distinct (map fst (selectedAnswers st))
       \<and> (\<exists>st'. handleAnswerSelect a st = Inr st'
             \<and> map_of (selectedAnswers st')
                 = (map_of (selectedAnswers st))(q_id (questions st ! currentQuestionIndex st) \<mapsto> a)
             \<and> distinct (map fst (selectedAnswers st'))
             \<and> currentQuestionIndex st' = currentQuestionIndex st
             \<and> questions st' = questions st
             \<and> (\<exists>st''. handleAnswerSelect b st' = Inr st''
                   \<and> map_of (selectedAnswers st'') (q_id (questions st ! currentQuestionIndex st)) = Some b
                   \<and> length (selectedAnswers st'') = length (selectedAnswers st')
                   \<and> currentQuestionIndex st'' = currentQuestionIndex st))"
proof -
  from run_wf[OF mounted_wf[OF ne], of xs m d eid] r have wf: "wellFormed st" by auto
  then have idx: "currentQuestionIndex st < length (questions st)"
    and ds: "distinct (map fst (selectedAnswers st))" by (simp_all add: wellFormed_def)
  let ?k = "q_id (questions st ! currentQuestionIndex st)"
  let ?st' = "st\<lparr>selectedAnswers := spread_set ?k a (selectedAnswers st),
                   showExplanation := (if mode st = learning then True else showExplanation st)\<rparr>"
  let ?st'' = "?st'\<lparr>selectedAnswers := spread_set ?k b (selectedAnswers ?st'),
                   showExplanation := (if mode ?st' = learning then True else showExplanation ?st')\<rparr>"
  have s1: "handleAnswerSelect a st = Inr ?st'"
    using idx by (simp add: handleAnswerSelect_def currentQuestion_def)
  have s2: "handleAnswerSelect b ?st' = Inr ?st''"
    using idx by (simp add: handleAnswerSelect_def currentQuestion_def)
  have kin: "?k \<in> fst ` set (spread_set ?k a (selectedAnswers st))"
    using keys_spread_set[of ?k a "selectedAnswers st"] by simp
  have second: "\<exists>st''. handleAnswerSelect b ?st' = Inr st''
                   \<and> map_of (selectedAnswers st'') ?k = Some b
                   \<and> length (selectedAnswers st'') = length (selectedAnswers ?st')
                   \<and> currentQuestionIndex st'' = currentQuestionIndex st"
    using s2 kin by (simp add: map_of_spread_set length_spread_set)
  have first: "map_of (selectedAnswers ?st') = (map_of (selectedAnswers st))(?k \<mapsto> a)
             \<and> distinct (map fst (selectedAnswers ?st'))
             \<and> currentQuestionIndex ?st' = currentQuestionIndex st
             \<and> questions ?st' = questions st"
    using ds by (simp add: map_of_spread_set distinct_spread_set)
  from ds s1 first second show ?thesis by blast
qed

theorem select_overwrites_current_witness:
  "map sampleQ [''1'', ''2''] \<noteq> []
   \<and> run [SelectAnswer ''a1'', Advance] (mounted practice False ''e1'' (map sampleQ [''1'', ''2'']))
       = Inr ((mounted practice False ''e1'' (map sampleQ [''1'', ''2'']))
               \<lparr>currentQuestionIndex := 1, selectedAnswers := [(''q1'', ''a1'')],
                effects := [InsertResponse ''e1'' ''q1'' ''a1'' False]\<rparr>)
   \<and> (\<exists>st' st''.
         handleAnswerSelect ''a2''
           ((mounted practice False ''e1'' (map sampleQ [''1'', ''2'']))
               \<lparr>currentQuestionIndex := 1, selectedAnswers := [(''q1'', ''a1'')],
                effects := [InsertResponse ''e1'' ''q1'' ''a1'' False]\<rparr>) = Inr st'
         \<and> map_of (selectedAnswers st') = [''q1'' \<mapsto> ''a1'', ''q2'' \<mapsto> ''a2'']
         \<and> handleAnswerSelect ''b2'' st' = Inr st''
         \<and> map_of (selectedAnswers st'') ''q2'' = Some ''b2''
         \<and> length (selectedAnswers st'') = length (selectedAnswers st'))"
proof -
  let ?init = "mounted practice False ''e1'' (map sampleQ [''1'', ''2''])"
  let ?st = "?init\<lparr>currentQuestionIndex := 1, selectedAnswers := [(''q1'', ''a1'')],
                effects := [InsertResponse ''e1'' ''q1'' ''a1'' False]\<rparr>"
  have ne: "map sampleQ [''1'', ''2''] \<noteq> []" by simp
  have r: "run [SelectAnswer ''a1'', Advance] ?init = Inr ?st"
    by (simp add: mounted_def sampleQ_def handleAnswerSelect_def handleNextQuestion_unfold
        saveUnlessLearning_def saveResponse_def currentQuestion_def Let_def)
  have k: "q_id (questions ?st ! currentQuestionIndex ?st) = ''q2''"
    by (simp add: mounted_def sampleQ_def)
  have m: "map_of (selectedAnswers ?st) = [''q1'' \<mapsto> ''a1'']"
    by (simp add: mounted_def)
  from select_overwrites_current[OF ne r, of "''a2''" "''b2''"] obtain st' st'' where
    "handleAnswerSelect ''a2'' ?st = Inr st'"
    "map_of (selectedAnswers st') = [''q1'' \<mapsto> ''a1'', ''q2'' \<mapsto> ''a2'']"
    "handleAnswerSelect ''b2'' st' = Inr st''"
    "map_of (selectedAnswers st'') ''q2'' = Some ''b2''"
    "length (selectedAnswers st'') = length (selectedAnswers st')"
    unfolding k m by blast
  with ne r show ?thesis by blast
qed

section \<open>Navigation\<close>

lemma submit_completes:
  assumes "currentQuestionIndex st < length (questions st)"
  shows "ExamComplete (examId st) \<in> set (effects (handleSubmitExam st))"
proof -
  from saveUnlessLearning_ok[OF assms] obtain st1 where s: "saveUnlessLearning st = Inr st1" by blast
  from saveUnlessLearning_frame[OF s] show ?thesis
    by (simp add: handleSubmitExam_def s Let_def)
qed

text \<open>
  In a run, where every invocation ends before the next operation begins, a session
  with a non-empty sequence keeps its pointer on a question of the sequence.
  \<open>handlePreviousQuestion\<close> never changes the answers, returns the state as it is at
  the first question and moves the pointer back by one elsewhere. An invocation of
  \<open>handleNextQuestion\<close> with nothing in between returns; before the last question it
  moves the pointer forward by one (after the save), at the last question it leaves the
  pointer and runs \<open>handleSubmitExam\<close>, which calls \<open>onExamComplete\<close>.
\<close>

lemma pointer_in_bounds_in_runs:
  assumes ne: "qs \<noteq> []"
      and r: "run xs (mounted m d eid qs) = Inr st"
  shows "currentQuestionIndex st < length (questions st)
       \<and> selectedAnswers (handlePreviousQuestion st) = selectedAnswers st
       \<and> (currentQuestionIndex st = 0 \<longrightarrow> handlePreviousQuestion st = st)
       \<and> (0 < currentQuestionIndex st \<longrightarrow>
            currentQuestionIndex (handlePreviousQuestion st) = currentQuestionIndex st - 1)
       \<and> (\<exists>st1 st'. saveUnlessLearning st = Inr st1 \<and> handleNextQuestion st = Inr st'
             \<and> currentQuestionIndex st' < length (questions st')
             \<and> (Suc (currentQuestionIndex st) < length (questions st) \<longrightarrow>
                   st' = st1\<lparr>currentQuestionIndex := Suc (currentQuestionIndex st),
                              showExplanation := False\<rparr>)
             \<and> (Suc (currentQuestionIndex st) = length (questions st) \<longrightarrow>
                   st' = handleSubmitExam st1
                   \<and> currentQuestionIndex st' = currentQuestionIndex st
                   \<and> ExamComplete (examId st) \<in> set (effects st')))"
proof -
  from run_wf[OF mounted_wf[OF ne], of xs m d eid] r have wf: "wellFormed st" by auto
  then have idx: "currentQuestionIndex st < length (questions st)" by (simp add: wellFormed_def)
  have prev: "selectedAnswers (handlePreviousQuestion st) = selectedAnswers st
       \<and> (currentQuestionIndex st = 0 \<longrightarrow> handlePreviousQuestion st = st)
       \<and> (0 < currentQuestionIndex st \<longrightarrow>
            currentQuestionIndex (handlePreviousQuestion st) = currentQuestionIndex st - 1)"
    by (simp add: handlePreviousQuestion_def)
  obtain st1 where s: "saveUnlessLearning st = Inr st1"
    and a: "Suc (currentQuestionIndex st) < length (questions st) \<Longrightarrow>
           handleNextQuestion st =
             Inr (st1\<lparr>currentQuestionIndex := Suc (currentQuestionIndex st), showExplanation := False\<rparr>)"
    and b: "Suc (currentQuestionIndex st) = length (questions st) \<Longrightarrow>
           handleNextQuestion st = Inr (handleSubmitExam st1)"
    by (rule next_cases[OF idx]) blast
  note f = saveUnlessLearning_frame[OF s]
  from next_wf[OF wf] obtain st' where n: "handleNextQuestion st = Inr st'"
    and w': "wellFormed st'" by blast
  from w' have idx': "currentQuestionIndex st' < length (questions st')"
    by (simp add: wellFormed_def)
  have mid: "Suc (currentQuestionIndex st) < length (questions st) \<longrightarrow>
                   st' = st1\<lparr>currentQuestionIndex := Suc (currentQuestionIndex st),
                              showExplanation := False\<rparr>"
    using a n by simp
  have idx1: "currentQuestionIndex st1 < length (questions st1)" using f idx by simp
  have last: "Suc (currentQuestionIndex st) = length (questions st) \<longrightarrow>
                   st' = handleSubmitExam st1
                   \<and> currentQuestionIndex st' = currentQuestionIndex st
                   \<and> ExamComplete (examId st) \<in> set (effects st')"
    using b n f submit_completes[OF idx1] by (auto simp: submit_frame)
  from idx prev s n idx' mid last show ?thesis by blast
qed

lemma pointer_in_bounds_in_runs_instance:
  "map sampleQ [''1'', ''2''] \<noteq> []
   \<and> run [SelectAnswer ''a1'', Advance] (mounted practice False ''e1'' (map sampleQ [''1'', ''2'']))
       = Inr ((mounted practice False ''e1'' (map sampleQ [''1'', ''2'']))
               \<lparr>currentQuestionIndex := 1, selectedAnswers := [(''q1'', ''a1'')],
                effects := [InsertResponse ''e1'' ''q1'' ''a1'' False]\<rparr>)
   \<and> (\<exists>st'. handleNextQuestion
               ((mounted practice False ''e1'' (map sampleQ [''1'', ''2'']))
                 \<lparr>currentQuestionIndex := 1, selectedAnswers := [(''q1'', ''a1'')],
                  effects := [InsertResponse ''e1'' ''q1'' ''a1'' False]\<rparr>) = Inr st'
           \<and> currentQuestionIndex st' = 1
           \<and> ExamComplete ''e1'' \<in> set (effects st'))
   \<and> currentQuestionIndex (handlePreviousQuestion
               ((mounted practice False ''e1'' (map sampleQ [''1'', ''2'']))
                 \<lparr>currentQuestionIndex := 1, selectedAnswers := [(''q1'', ''a1'')],
                  effects := [InsertResponse ''e1'' ''q1'' ''a1'' False]\<rparr>)) = 0"
proof -
  let ?init = "mounted practice False ''e1'' (map sampleQ [''1'', ''2''])"
  let ?st = "?init\<lparr>currentQuestionIndex := 1, selectedAnswers := [(''q1'', ''a1'')],
                effects := [InsertResponse ''e1'' ''q1'' ''a1'' False]\<rparr>"
  have ne: "map sampleQ [''1'', ''2''] \<noteq> []" by simp
  have r: "run [SelectAnswer ''a1'', Advance] ?init = Inr ?st"
    by (simp add: mounted_def sampleQ_def handleAnswerSelect_def handleNextQuestion_unfold
        saveUnlessLearning_def saveResponse_def currentQuestion_def Let_def)
  have i: "currentQuestionIndex ?st = 1" "length (questions ?st) = 2" "examId ?st = ''e1''"
    by (simp_all add: mounted_def)
  from pointer_in_bounds_in_runs[OF ne r]
  have p: "currentQuestionIndex (handlePreviousQuestion ?st) = 0"
    and n: "\<exists>st'. handleNextQuestion ?st = Inr st' \<and> currentQuestionIndex st' = 1
              \<and> ExamComplete ''e1'' \<in> set (effects st')"
    unfolding i by auto
  from ne r n p show ?thesis by blast
qed

text \<open>
  C6. The pointer does not stay within bounds when two invocations of
  \<open>handleNextQuestion\<close> overlap. The instance is a practice session of two questions
  with a backend, the first question answered, the pointer on it. Next is pressed: the
  insert is issued and the handler waits. Nothing was written to a state cell, so the
  render is the same and Next is still enabled; it is pressed again, and a second insert
  is issued. The first handler resumes: the pointer of its render is 0, below 1, and it
  adds one to the pointer. The second handler resumes: the pointer of its render is 0 as
  well, and it adds one to the current pointer, 1. The pointer is 2, the length of the
  sequence; there is no current question, and nothing was submitted.
\<close>

theorem double_next_past_end:
  "saveUnlessLearning firstAnswered
     = Inr (firstAnswered\<lparr>effects := [InsertResponse ''e1'' ''q1'' ''b1'' True]\<rparr>)
   \<and> \<not> nextDisabled (firstAnswered\<lparr>effects := [InsertResponse ''e1'' ''q1'' ''b1'' True]\<rparr>)
   \<and> saveUnlessLearning (firstAnswered\<lparr>effects := [InsertResponse ''e1'' ''q1'' ''b1'' True]\<rparr>)
     = Inr (firstAnswered\<lparr>effects := [InsertResponse ''e1'' ''q1'' ''b1'' True,
                                      InsertResponse ''e1'' ''q1'' ''b1'' True]\<rparr>)
   \<and> nextResume firstAnswered
       (firstAnswered\<lparr>effects := [InsertResponse ''e1'' ''q1'' ''b1'' True,
                                InsertResponse ''e1'' ''q1'' ''b1'' True]\<rparr>)
     = firstAnswered\<lparr>currentQuestionIndex := 1,
         effects := [InsertResponse ''e1'' ''q1'' ''b1'' True,
                     InsertResponse ''e1'' ''q1'' ''b1'' True]\<rparr>
   \<and> nextResume (firstAnswered\<lparr>effects := [InsertResponse ''e1'' ''q1'' ''b1'' True]\<rparr>)
       (firstAnswered\<lparr>currentQuestionIndex := 1,
          effects := [InsertResponse ''e1'' ''q1'' ''b1'' True,
                      InsertResponse ''e1'' ''q1'' ''b1'' True]\<rparr>)
     = firstAnswered\<lparr>currentQuestionIndex := 2,
         effects := [InsertResponse ''e1'' ''q1'' ''b1'' True,
                     InsertResponse ''e1'' ''q1'' ''b1'' True]\<rparr>
   \<and> length (questions firstAnswered) = 2
   \<and> currentQuestion (firstAnswered\<lparr>currentQuestionIndex := 2\<rparr>) = None"
  by code_simp

section \<open>The loaded sequence\<close>

text \<open>
  C7. When the pool holds at least as many questions as the mode asks for, and the
  shuffle returns as many questions as it is given, the sequence \<open>fetchQuestions\<close> loads
  has 20 questions in mock-test mode and 10 in practice and learning modes, and every
  run of operations on the session mounted with it ends in a state with that same
  sequence.
\<close>

theorem sequence_length_fixed:
  assumes enough: "questionLimit m \<le> length pool"
      and sh: "\<forall>ys. length (shuffleQ ys) = length ys"
  shows "length (fetchQuestions shuffleQ shuffleA m pool)
           = (case m of mock_test \<Rightarrow> 20 | practice \<Rightarrow> 10 | learning \<Rightarrow> 10)
       \<and> (\<exists>st. run xs (mounted m d eid (fetchQuestions shuffleQ shuffleA m pool)) = Inr st
             \<and> questions st = fetchQuestions shuffleQ shuffleA m pool)"
proof -
  let ?qs = "fetchQuestions shuffleQ shuffleA m pool"
  have len: "length ?qs = questionLimit m"
    using enough sh by (simp add: fetchQuestions_def)
  then have l: "length ?qs = (case m of mock_test \<Rightarrow> 20 | practice \<Rightarrow> 10 | learning \<Rightarrow> 10)"
    by (cases m) (simp_all add: questionLimit_def)
  from len have "?qs \<noteq> []" by (auto simp: questionLimit_def split: if_splits)
  from run_wf[OF mounted_wf[OF this], of xs m d eid]
  have "\<exists>st. run xs (mounted m d eid ?qs) = Inr st \<and> questions st = ?qs"
    by (auto simp: mounted_def)
  with l show ?thesis by blast
qed

theorem sequence_length_fixed_witness:
  "questionLimit mock_test \<le> length pool25
   \<and> (\<forall>ys::question list. length (rev ys) = length ys)
   \<and> length (fetchQuestions rev rev mock_test pool25) = 20
   \<and> length (fetchQuestions rev rev learning pool25) = 10
   \<and> (\<exists>st. run [SelectAnswer ''x'', Advance, Retreat]
               (mounted mock_test False ''e1'' (fetchQuestions rev rev mock_test pool25)) = Inr st
           \<and> questions st = fetchQuestions rev rev mock_test pool25)"
proof -
  have e1: "questionLimit mock_test \<le> length pool25"
    and e2: "questionLimit learning \<le> length pool25"
    by (simp_all add: questionLimit_def pool25_def)
  have sh: "\<forall>ys::question list. length (rev ys) = length ys" by simp
  from sequence_length_fixed[OF e1 sh, of rev "[SelectAnswer ''x'', Advance, Retreat]" False "''e1''"]
       sequence_length_fixed[OF e2 sh, of rev "[]" False "''e1''"]
  show ?thesis using e1 sh by simp
qed

section \<open>What the handlers issue\<close>

lemma saved_responses: "filter isResponse (saved st) = saved st"
  by (simp add: saved_def split: option.splits)

lemma saved_no_complete: "filter isComplete (saved st) = []" "filter isUpdate (saved st) = []"
  by (simp_all add: saved_def split: option.splits)

lemma finalization_filters:
  "filter isResponse (finalization st) = []"
  "length (filter isComplete (finalization st)) = 1"
  "length (filter isUpdate (finalization st)) = (if demo st then 0 else 1)"
  by (simp_all add: finalization_def Let_def)

lemma saveResponse_eq:
  assumes "currentQuestionIndex st < length (questions st)"
  shows "saveResponse st = Inr (st\<lparr>effects := effects st @ saved st\<rparr>)"
  using assms
  by (simp add: saveResponse_def saved_def currentQuestion_def Let_def split: option.splits)

lemma saveUnlessLearning_eq:
  assumes "currentQuestionIndex st < length (questions st)"
  shows "saveUnlessLearning st =
           Inr (st\<lparr>effects := effects st @ (if mode st \<noteq> learning then saved st else [])\<rparr>)"
  using saveResponse_eq[OF assms] by (simp add: saveUnlessLearning_def)

lemma saved_effects_irrelevant [simp]: "saved (st\<lparr>effects := es\<rparr>) = saved st"
  by (simp add: saved_def currentQuestion_def split: option.splits)

lemma finalization_effects_irrelevant [simp]: "finalization (st\<lparr>effects := es\<rparr>) = finalization st"
  by (simp add: finalization_def Let_def)

lemma submit_eq:
  assumes "currentQuestionIndex st < length (questions st)"
  shows "handleSubmitExam st =
           st\<lparr>effects := effects st @ (if mode st \<noteq> learning then saved st else []) @ finalization st\<rparr>"
  by (simp add: handleSubmitExam_def saveUnlessLearning_eq[OF assms] finalization_def Let_def)

lemma next_eq:
  assumes "currentQuestionIndex st < length (questions st)"
  shows "handleNextQuestion st =
           Inr (if Suc (currentQuestionIndex st) < length (questions st)
                then st\<lparr>currentQuestionIndex := Suc (currentQuestionIndex st),
                        showExplanation := False,
                        effects := effects st @ (if mode st \<noteq> learning then saved st else [])\<rparr>
                else st\<lparr>effects := effects st @ (if mode st \<noteq> learning then saved st else [])
                                   @ (if mode st \<noteq> learning then saved st else []) @ finalization st\<rparr>)"
proof -
  let ?st1 = "st\<lparr>effects := effects st @ (if mode st \<noteq> learning then saved st else [])\<rparr>"
  have i1: "currentQuestionIndex ?st1 < length (questions ?st1)" using assms by simp
  show ?thesis
    using assms
    by (auto simp: handleNextQuestion_unfold saveUnlessLearning_eq[OF assms] submit_eq[OF i1])
qed

section \<open>Submitting more than once\<close>

lemma tick_cases:
  "tick st =
     (if mode st = mock_test \<and> timeLeft st = 1 then (handleSubmitExam st)\<lparr>timeLeft := 0\<rparr>
      else if mode st = mock_test \<and> 1 < timeLeft st then st\<lparr>timeLeft := timeLeft st - 1\<rparr>
      else st)"
  by (auto simp: tick_unfold)

lemma submit_completions:
  assumes "currentQuestionIndex st < length (questions st)"
  shows "length (filter isComplete (effects (handleSubmitExam st)))
           = Suc (length (filter isComplete (effects st)))"
    and "length (filter isUpdate (effects (handleSubmitExam st)))
           = length (filter isUpdate (effects st)) + (if demo st then 0 else 1)"
  by (simp_all add: submit_eq[OF assms] saved_no_complete finalization_filters)

lemma ticks_completions:
  "currentQuestionIndex st < length (questions st) \<Longrightarrow>
     length (filter isComplete (effects ((tick ^^ n) st)))
       = length (filter isComplete (effects st))
         + (if mode st = mock_test \<and> 0 < timeLeft st \<and> timeLeft st \<le> n then 1 else 0)"
proof (induction n arbitrary: st)
  case 0
  then show ?case by auto
next
  case (Suc n)
  have idx': "currentQuestionIndex (tick st) < length (questions (tick st))"
    using Suc.prems by (simp add: tick_frame)
  have step: "(tick ^^ Suc n) st = (tick ^^ n) (tick st)" by (simp add: funpow_swap1)
  consider (fire) "mode st = mock_test" "timeLeft st = 1"
    | (count) "mode st = mock_test" "1 < timeLeft st"
    | (idle) "\<not> (mode st = mock_test \<and> 0 < timeLeft st)" by fastforce
  then show ?case
  proof cases
    case fire
    then have t: "tick st = (handleSubmitExam st)\<lparr>timeLeft := 0\<rparr>" by (simp add: tick_cases)
    from Suc.IH[OF idx'] fire show ?thesis
      unfolding step by (simp add: t submit_completions(1)[OF Suc.prems] submit_frame)
  next
    case count
    then have t: "tick st = st\<lparr>timeLeft := timeLeft st - 1\<rparr>" by (simp add: tick_cases)
    from Suc.IH[OF idx'] count show ?thesis
      unfolding step by (auto simp: t)
  next
    case idle
    then have t: "tick st = st" by (auto simp: tick_unfold)
    from Suc.IH[OF Suc.prems] idle show ?thesis
      unfolding step t by auto
  qed
qed

text \<open>
  C3. The claim fails: \<open>handleSubmitExam\<close> tests nothing and writes no state cell, so
  a second invocation does what the first did. In the instance the learner presses
  Finish on the last question with one second left and the countdown expires while that
  submit is under way: the exam row is updated twice and \<open>onExamComplete\<close> is called
  twice. (The order in which the two invocations issue their requests depends on the
  network; the requests are the same.)
\<close>

theorem submit_once_counterexample:
  "run [Advance, Tick] lastSecond =
     Inr (lastSecond\<lparr>timeLeft := 0,
            effects :=
              [InsertResponse ''e1'' ''q1'' ''b1'' True, InsertResponse ''e1'' ''q1'' ''b1'' True,
               UpdateExam ''e1'' (Num 100) True, ToastSuccess (Num 100), ExamComplete ''e1'',
               InsertResponse ''e1'' ''q1'' ''b1'' True,
               UpdateExam ''e1'' (Num 100) True, ToastSuccess (Num 100), ExamComplete ''e1'']\<rparr>)"
  by code_simp

text \<open>
  C3, as amended. On a session whose pointer is on a question, every invocation of
  \<open>handleSubmitExam\<close> calls \<open>onExamComplete\<close> once more and, with a backend, updates the
  exam row once more, whatever was issued before; and the countdown by itself, over any
  number of ticks, invokes it once when the mode is mock test and the remaining time
  runs out within those ticks, and never otherwise.
\<close>

theorem submit_each_time:
  assumes idx: "currentQuestionIndex st < length (questions st)"
  shows "length (filter isComplete (effects (handleSubmitExam st)))
           = Suc (length (filter isComplete (effects st)))
       \<and> length (filter isUpdate (effects (handleSubmitExam st)))
           = length (filter isUpdate (effects st)) + (if demo st then 0 else 1)
       \<and> length (filter isComplete (effects ((tick ^^ n) st)))
           = length (filter isComplete (effects st))
             + (if mode st = mock_test \<and> 0 < timeLeft st \<and> timeLeft st \<le> n then 1 else 0)"
  using submit_completions[OF idx] ticks_completions[OF idx] by simp

theorem submit_each_time_witness:
  "currentQuestionIndex lastSecond < length (questions lastSecond)
   \<and> length (filter isComplete (effects (handleSubmitExam lastSecond))) = 1
   \<and> length (filter isUpdate (effects (handleSubmitExam lastSecond))) = 1
   \<and> length (filter isComplete (effects ((tick ^^ 5) lastSecond))) = 1"
proof -
  have idx: "currentQuestionIndex lastSecond < length (questions lastSecond)"
    by (simp add: lastSecond_def mounted_def)
  have f: "effects lastSecond = []" "demo lastSecond = False" "mode lastSecond = mock_test"
    "timeLeft lastSecond = 1"
    by (simp_all add: lastSecond_def mounted_def)
  from submit_each_time[OF idx, of 5] idx show ?thesis by (simp add: f)
qed

section \<open>Response records\<close>

lemma saved_cases:
  assumes "currentQuestionIndex st < length (questions st)"
  shows "saved st =
     (case map_of (selectedAnswers st) (q_id (questions st ! currentQuestionIndex st)) of
        None \<Rightarrow> []
      | Some a \<Rightarrow>
          if a = [] \<or> demo st then []
          else [InsertResponse (examId st) (q_id (questions st ! currentQuestionIndex st)) a
                  (Some a = map_option a_id
                     (find is_correct (answers (questions st ! currentQuestionIndex st))))])"
  using assms by (simp add: saved_def currentQuestion_def)

text \<open>
  C8. The claim fails in its count over the session: every advance from an answered
  question issues an insert, so going back and advancing again issues a second record
  for the same question. In the instance one question is answered and two records are
  issued for it.
\<close>

theorem one_response_per_question_counterexample:
  "run [Advance, Retreat, Advance] firstAnswered =
     Inr (firstAnswered\<lparr>currentQuestionIndex := 1,
            effects := [InsertResponse ''e1'' ''q1'' ''b1'' True,
                        InsertResponse ''e1'' ''q1'' ''b1'' True]\<rparr>)"
  by code_simp

text \<open>
  C8, as amended. Outside learning mode, on a session whose pointer is on a question,
  \<open>handleNextQuestion\<close> returns and: in demo mode, or when no answer or the empty
  answer is recorded for the current question, it issues no response insert; with a
  backend and a non-empty answer recorded, the inserts it issues are for the current
  question with that answer and its correctness, and before the last question it issues
  exactly that one insert and nothing else.
\<close>

theorem advance_saves_current:
  assumes idx: "currentQuestionIndex st < length (questions st)"
      and nl: "mode st \<noteq> learning"
  shows "\<exists>st'. handleNextQuestion st = Inr st'
       \<and> (demo st \<or> map_of (selectedAnswers st) (q_id (questions st ! currentQuestionIndex st)) = None
              \<or> map_of (selectedAnswers st) (q_id (questions st ! currentQuestionIndex st)) = Some []
           \<longrightarrow> filter isResponse (effects st') = filter isResponse (effects st))
       \<and> (\<not> demo st \<and> a \<noteq> []
              \<and> map_of (selectedAnswers st) (q_id (questions st ! currentQuestionIndex st)) = Some a
           \<longrightarrow> set (filter isResponse (effects st'))
                 = insert (InsertResponse (examId st) (q_id (questions st ! currentQuestionIndex st)) a
                            (Some a = map_option a_id
                               (find is_correct (answers (questions st ! currentQuestionIndex st)))))
                     (set (filter isResponse (effects st)))
               \<and> (Suc (currentQuestionIndex st) < length (questions st) \<longrightarrow>
                     effects st' = effects st @
                       [InsertResponse (examId st) (q_id (questions st ! currentQuestionIndex st)) a
                          (Some a = map_option a_id
                             (find is_correct (answers (questions st ! currentQuestionIndex st))))]))"
proof -
  let ?k = "q_id (questions st ! currentQuestionIndex st)"
  let ?rec = "InsertResponse (examId st) ?k a
                (Some a = map_option a_id
                   (find is_correct (answers (questions st ! currentQuestionIndex st))))"
  let ?st' = "if Suc (currentQuestionIndex st) < length (questions st)
                then st\<lparr>currentQuestionIndex := Suc (currentQuestionIndex st),
                        showExplanation := False,
                        effects := effects st @ saved st\<rparr>
                else st\<lparr>effects := effects st @ saved st @ saved st @ finalization st\<rparr>"
  have n: "handleNextQuestion st = Inr ?st'"
    using next_eq[OF idx] nl by simp
  have none: "filter isResponse (effects ?st') = filter isResponse (effects st)"
    if "demo st \<or> map_of (selectedAnswers st) ?k = None \<or> map_of (selectedAnswers st) ?k = Some []"
  proof -
    from that have "saved st = []" by (auto simp: saved_cases[OF idx] split: option.splits)
    then show ?thesis by (simp add: finalization_filters)
  qed
  have some: "set (filter isResponse (effects ?st')) = insert ?rec (set (filter isResponse (effects st)))
               \<and> (Suc (currentQuestionIndex st) < length (questions st) \<longrightarrow>
                     effects ?st' = effects st @ [?rec])"
    if "\<not> demo st \<and> a \<noteq> [] \<and> map_of (selectedAnswers st) ?k = Some a"
  proof -
    from that have sv: "saved st = [?rec]" by (simp add: saved_cases[OF idx])
    show ?thesis
    proof (cases "Suc (currentQuestionIndex st) < length (questions st)")
      case True
      then have "effects ?st' = effects st @ [?rec]" by (simp add: sv)
      with True show ?thesis by auto
    next
      case False
      then have "filter isResponse (effects ?st')
                   = filter isResponse (effects st) @ [?rec, ?rec]"
        by (simp add: sv finalization_filters)
      then have "set (filter isResponse (effects ?st'))
                   = insert ?rec (set (filter isResponse (effects st)))"
        by (simp only: set_append) auto
      with False show ?thesis by simp
    qed
  qed
  from n none some show ?thesis by blast
qed

theorem advance_saves_current_witness:
  "currentQuestionIndex firstAnswered < length (questions firstAnswered)
   \<and> mode firstAnswered \<noteq> learning
   \<and> \<not> demo firstAnswered
   \<and> map_of (selectedAnswers firstAnswered) ''q1'' = Some ''b1''
   \<and> (\<exists>st'. handleNextQuestion firstAnswered = Inr st'
         \<and> effects st' = [InsertResponse ''e1'' ''q1'' ''b1'' True])"
proof -
  have idx: "currentQuestionIndex firstAnswered < length (questions firstAnswered)"
    and nl: "mode firstAnswered \<noteq> learning"
    by (simp_all add: firstAnswered_def mounted_def)
  have f: "\<not> demo firstAnswered" "map_of (selectedAnswers firstAnswered) ''q1'' = Some ''b1''"
    "q_id (questions firstAnswered ! currentQuestionIndex firstAnswered) = ''q1''"
    "effects firstAnswered = []" "examId firstAnswered = ''e1''"
    "Suc (currentQuestionIndex firstAnswered) < length (questions firstAnswered)"
    "find is_correct (answers (questions firstAnswered ! currentQuestionIndex firstAnswered))
       = Some \<lparr>a_id = ''b1'', question_id = ''q1'', answer_text = ''yes'', is_correct = True\<rparr>"
    by (simp_all add: firstAnswered_def mounted_def sampleQ_def)
  from advance_saves_current[OF idx nl, of "''b1''"]
  have "\<exists>st'. handleNextQuestion firstAnswered = Inr st'
         \<and> effects st' = [InsertResponse ''e1'' ''q1'' ''b1'' True]"
    by (auto simp: f)
  with idx nl f(1,2) show ?thesis by blast
qed

section \<open>Learning mode\<close>

lemma saved_not_other: "filter (\<lambda>e. \<not> isResponse e) (saved st) = []"
  by (simp add: saved_def split: option.splits)

lemma finalization_other:
  "filter (\<lambda>e. \<not> isResponse e) (finalization st) = finalization st"
  by (simp add: finalization_def Let_def)

lemma finalization_agree: "agree s t \<Longrightarrow> finalization s = finalization t"
  by (simp add: agree_def finalization_def Let_def)

lemma perform_agree:
  assumes ag: "agree s t"
      and ls: "mode s = learning"
      and idx: "currentQuestionIndex s < length (questions s)"
      and tk: "x = Tick \<longrightarrow> mode t \<noteq> mock_test"
  shows "\<exists>s' t'. perform x s = Inr s' \<and> perform x t = Inr t' \<and> agree s' t'
           \<and> mode s' = learning \<and> mode t' = mode t
           \<and> currentQuestionIndex s' < length (questions s')
           \<and> filter isResponse (effects s') = filter isResponse (effects s)"
proof -
  from ag idx have idt: "currentQuestionIndex t < length (questions t)" by (simp add: agree_def)
  note fa = finalization_agree[OF ag]
  show ?thesis
  proof (cases x)
    case (SelectAnswer a)
    with ag ls idx idt show ?thesis
      by (simp add: handleAnswerSelect_def currentQuestion_def agree_def)
  next
    case Advance
    have "handleNextQuestion s =
            Inr (if Suc (currentQuestionIndex s) < length (questions s)
                 then s\<lparr>currentQuestionIndex := Suc (currentQuestionIndex s),
                         showExplanation := False\<rparr>
                 else s\<lparr>effects := effects s @ finalization s\<rparr>)"
      using next_eq[OF idx] ls by simp
    with Advance ag ls idx next_eq[OF idt] fa show ?thesis
      by (auto simp: agree_def saved_not_other finalization_other finalization_filters)
  next
    case Retreat
    with ag ls idx show ?thesis
      by (auto simp: handlePreviousQuestion_def agree_def)
  next
    case Submit
    with ag ls idx submit_eq[OF idx] submit_eq[OF idt] fa show ?thesis
      by (auto simp: agree_def saved_not_other finalization_other finalization_filters)
  next
    case Tick
    with tk have "tick t = t" by (simp add: tick_unfold)
    moreover from ls have "tick s = s" by (simp add: tick_unfold)
    ultimately show ?thesis using Tick ag ls idx by simp
  qed
qed

lemma run_agree:
  "agree s t \<Longrightarrow> mode s = learning \<Longrightarrow> currentQuestionIndex s < length (questions s) \<Longrightarrow>
   Tick \<in> set xs \<longrightarrow> mode t \<noteq> mock_test \<Longrightarrow>
     \<exists>s' t'. run xs s = Inr s' \<and> run xs t = Inr t' \<and> agree s' t'
           \<and> filter isResponse (effects s') = filter isResponse (effects s)"
proof (induction xs arbitrary: s t)
  case Nil
  then show ?case by simp
next
  case (Cons x xs)
  from Cons.prems(4) have tk: "x = Tick \<longrightarrow> mode t \<noteq> mock_test" by simp
  from perform_agree[OF Cons.prems(1,2,3) tk] obtain s1 t1
    where p: "perform x s = Inr s1" "perform x t = Inr t1" and a: "agree s1 t1"
      and m: "mode s1 = learning" "mode t1 = mode t"
      and i: "currentQuestionIndex s1 < length (questions s1)"
      and r: "filter isResponse (effects s1) = filter isResponse (effects s)"
    by blast
  from Cons.prems(4) m have tk': "Tick \<in> set xs \<longrightarrow> mode t1 \<noteq> mock_test" by simp
  from Cons.IH[OF a m(1) i tk'] p r show ?case by auto
qed

text \<open>
  C9. From a state whose pointer is on a question, a run of operations in learning
  mode returns and issues no response insert, whatever the operations. The same run in
  another mode (without timer ticks when that mode is mock test, where the timer
  exists) returns too and ends with the same answers, the same pointer and the same
  effects other than response inserts, so the same scores are reported.
\<close>

theorem learning_persists_nothing:
  assumes idx: "currentQuestionIndex st < length (questions st)"
      and tk: "Tick \<in> set xs \<longrightarrow> m \<noteq> mock_test"
  shows "\<exists>sL sM. run xs (st\<lparr>mode := learning\<rparr>) = Inr sL \<and> run xs (st\<lparr>mode := m\<rparr>) = Inr sM
       \<and> filter isResponse (effects sL) = filter isResponse (effects st)
       \<and> selectedAnswers sL = selectedAnswers sM
       \<and> currentQuestionIndex sL = currentQuestionIndex sM
       \<and> filter (\<lambda>e. \<not> isResponse e) (effects sL) = filter (\<lambda>e. \<not> isResponse e) (effects sM)"
proof -
  have a: "agree (st\<lparr>mode := learning\<rparr>) (st\<lparr>mode := m\<rparr>)" by (simp add: agree_def)
  have i: "currentQuestionIndex (st\<lparr>mode := learning\<rparr>) < length (questions (st\<lparr>mode := learning\<rparr>))"
    using idx by simp
  have t: "Tick \<in> set xs \<longrightarrow> mode (st\<lparr>mode := m\<rparr>) \<noteq> mock_test" using tk by simp
  from run_agree[OF a _ i t] show ?thesis by (auto simp: agree_def)
qed

theorem learning_persists_nothing_witness:
  "currentQuestionIndex firstAnswered < length (questions firstAnswered)
   \<and> Tick \<notin> set [Advance, SelectAnswer ''a2'', Submit]
   \<and> run [Advance, SelectAnswer ''a2'', Submit] (firstAnswered\<lparr>mode := learning\<rparr>)
       = Inr (firstAnswered\<lparr>mode := learning, currentQuestionIndex := 1,
                selectedAnswers := [(''q1'', ''b1''), (''q2'', ''a2'')], showExplanation := True,
                effects := [UpdateExam ''e1'' (Num 50) False, ToastSuccess (Num 50),
                            ExamComplete ''e1'']\<rparr>)
   \<and> (\<exists>sL sM. run [Advance, SelectAnswer ''a2'', Submit] (firstAnswered\<lparr>mode := learning\<rparr>) = Inr sL
         \<and> run [Advance, SelectAnswer ''a2'', Submit] (firstAnswered\<lparr>mode := mock_test\<rparr>) = Inr sM
         \<and> filter isResponse (effects sL) = []
         \<and> selectedAnswers sL = selectedAnswers sM
         \<and> currentQuestionIndex sL = currentQuestionIndex sM
         \<and> filter (\<lambda>e. \<not> isResponse e) (effects sL) = filter (\<lambda>e. \<not> isResponse e) (effects sM))"
proof -
  have idx: "currentQuestionIndex firstAnswered < length (questions firstAnswered)"
    by (simp add: firstAnswered_def mounted_def)
  have nt: "Tick \<notin> set [Advance, SelectAnswer ''a2'', Submit]" by simp
  then have tk: "Tick \<in> set [Advance, SelectAnswer ''a2'', Submit] \<longrightarrow> mock_test \<noteq> mock_test"
    by simp
  have e: "effects firstAnswered = []" by (simp add: firstAnswered_def mounted_def)
  have r: "run [Advance, SelectAnswer ''a2'', Submit] (firstAnswered\<lparr>mode := learning\<rparr>)
       = Inr (firstAnswered\<lparr>mode := learning, currentQuestionIndex := 1,
                selectedAnswers := [(''q1'', ''b1''), (''q2'', ''a2'')], showExplanation := True,
                effects := [UpdateExam ''e1'' (Num 50) False, ToastSuccess (Num 50),
                            ExamComplete ''e1'']\<rparr>)"
    by code_simp
  from learning_persists_nothing[OF idx tk]
  have "\<exists>sL sM. run [Advance, SelectAnswer ''a2'', Submit] (firstAnswered\<lparr>mode := learning\<rparr>) = Inr sL
         \<and> run [Advance, SelectAnswer ''a2'', Submit] (firstAnswered\<lparr>mode := mock_test\<rparr>) = Inr sM
         \<and> filter isResponse (effects sL) = []
         \<and> selectedAnswers sL = selectedAnswers sM
         \<and> currentQuestionIndex sL = currentQuestionIndex sM
         \<and> filter (\<lambda>e. \<not> isResponse e) (effects sL) = filter (\<lambda>e. \<not> isResponse e) (effects sM)"
    by (simp only: e filter.simps)
  with idx nt r show ?thesis by blast
qed

section \<open>The explanation overlay\<close>

lemma uiRun_stays:
  assumes "mode s = learning" "showExplanation s"
  shows "uiRun (filter (\<lambda>e. e \<noteq> ClickNext \<and> e \<noteq> ClickPrevious) es) s = Inr s"
proof (induction es)
  case Nil
  then show ?case by simp
next
  case (Cons e es)
  have "ui e s = Inr s" if "e \<noteq> ClickNext" "e \<noteq> ClickPrevious"
    using that assms by (cases e) (simp_all add: clickAnswer_def showResult_def tick_unfold)
  with Cons show ?case by simp
qed

text \<open>
  C10. In learning mode, on a question whose explanation is not showing: a click on an
  answer records it and sets the explanation flag, which disables every answer button.
  From then on any sequence of clicks on answers and timer firings leaves the state as
  it is, so the recorded answer stands. Next moves the pointer on and clears the flag,
  or on the last question submits and leaves flag, pointer and answers; Previous moves
  the pointer back and clears the flag, or on the first question does nothing.
\<close>

theorem learning_selection_final:
  assumes lm: "mode st = learning"
      and idx: "currentQuestionIndex st < length (questions st)"
      and fresh: "\<not> showExplanation st"
  shows "\<exists>st1 st2. clickAnswer a st = Inr st1
       \<and> showExplanation st1 \<and> showResult st1
       \<and> map_of (selectedAnswers st1) (q_id (questions st ! currentQuestionIndex st)) = Some a
       \<and> currentQuestionIndex st1 = currentQuestionIndex st
       \<and> clickAnswer b st1 = Inr st1
       \<and> uiRun (filter (\<lambda>e. e \<noteq> ClickNext \<and> e \<noteq> ClickPrevious) es) st1 = Inr st1
       \<and> clickNext st1 = Inr st2
       \<and> (if Suc (currentQuestionIndex st) < length (questions st)
            then currentQuestionIndex st2 = Suc (currentQuestionIndex st) \<and> \<not> showExplanation st2
            else currentQuestionIndex st2 = currentQuestionIndex st \<and> showExplanation st2)
       \<and> selectedAnswers st2 = selectedAnswers st1
       \<and> (if 0 < currentQuestionIndex st
            then Suc (currentQuestionIndex (clickPrevious st1)) = currentQuestionIndex st
                   \<and> \<not> showExplanation (clickPrevious st1)
            else clickPrevious st1 = st1)
       \<and> selectedAnswers (clickPrevious st1) = selectedAnswers st1"
proof -
  let ?k = "q_id (questions st ! currentQuestionIndex st)"
  let ?st1 = "st\<lparr>selectedAnswers := spread_set ?k a (selectedAnswers st), showExplanation := True\<rparr>"
  let ?st2 = "if Suc (currentQuestionIndex ?st1) < length (questions ?st1)
                then ?st1\<lparr>currentQuestionIndex := Suc (currentQuestionIndex ?st1),
                        showExplanation := False,
                        effects := effects ?st1 @ (if mode ?st1 \<noteq> learning then saved ?st1 else [])\<rparr>
                else ?st1\<lparr>effects := effects ?st1 @ (if mode ?st1 \<noteq> learning then saved ?st1 else [])
                                   @ (if mode ?st1 \<noteq> learning then saved ?st1 else [])
                                   @ finalization ?st1\<rparr>"
  have c1: "clickAnswer a st = Inr ?st1"
    using lm idx fresh
    by (simp add: clickAnswer_def showResult_def handleAnswerSelect_def currentQuestion_def)
  have m1: "mode ?st1 = learning" "showExplanation ?st1" using lm by simp_all
  have i1: "currentQuestionIndex ?st1 < length (questions ?st1)" using idx by simp
  have sel: "map_of (selectedAnswers ?st1) ?k = Some a" by (simp add: map_of_spread_set)
  have again: "clickAnswer b ?st1 = Inr ?st1"
    using lm by (simp add: clickAnswer_def showResult_def)
  have stay: "uiRun (filter (\<lambda>e. e \<noteq> ClickNext \<and> e \<noteq> ClickPrevious) es) ?st1 = Inr ?st1"
    by (rule uiRun_stays[OF m1])
  have nx: "clickNext ?st1 = Inr ?st2"
    using next_eq[OF i1] lm by (simp add: clickNext_def nextDisabled_def Let_def)
  have nx1: "if Suc (currentQuestionIndex st) < length (questions st)
            then currentQuestionIndex ?st2 = Suc (currentQuestionIndex st) \<and> \<not> showExplanation ?st2
            else currentQuestionIndex ?st2 = currentQuestionIndex st \<and> showExplanation ?st2"
    by simp
  have nx2: "selectedAnswers ?st2 = selectedAnswers ?st1" by simp
  have pv1: "if 0 < currentQuestionIndex st
            then Suc (currentQuestionIndex (clickPrevious ?st1)) = currentQuestionIndex st
                   \<and> \<not> showExplanation (clickPrevious ?st1)
            else clickPrevious ?st1 = ?st1"
    by (simp add: clickPrevious_def handlePreviousQuestion_def)
  have pv2: "selectedAnswers (clickPrevious ?st1) = selectedAnswers ?st1"
    by (simp add: clickPrevious_def handlePreviousQuestion_def)
  have sr: "showResult ?st1" using lm by (simp add: showResult_def)
  have p: "currentQuestionIndex ?st1 = currentQuestionIndex st" by simp
  show ?thesis
    by (rule exI[of _ ?st1], rule exI[of _ ?st2], intro conjI)
       (fact c1 m1(2) sr sel p again stay nx nx1 nx2 pv1 pv2)+
qed

theorem learning_selection_final_witness:
  "mode learningStart = learning
   \<and> currentQuestionIndex learningStart < length (questions learningStart)
   \<and> \<not> showExplanation learningStart
   \<and> clickAnswer ''a1'' learningStart
       = Inr (learningStart\<lparr>selectedAnswers := [(''q1'', ''a1'')], showExplanation := True\<rparr>)
   \<and> clickAnswer ''b1'' (learningStart\<lparr>selectedAnswers := [(''q1'', ''a1'')], showExplanation := True\<rparr>)
       = Inr (learningStart\<lparr>selectedAnswers := [(''q1'', ''a1'')], showExplanation := True\<rparr>)
   \<and> uiRun [ClickAnswer ''b1'', TimerFires, ClickAnswer ''b1'']
         (learningStart\<lparr>selectedAnswers := [(''q1'', ''a1'')], showExplanation := True\<rparr>)
       = Inr (learningStart\<lparr>selectedAnswers := [(''q1'', ''a1'')], showExplanation := True\<rparr>)
   \<and> (\<exists>st2. clickNext (learningStart\<lparr>selectedAnswers := [(''q1'', ''a1'')], showExplanation := True\<rparr>)
               = Inr st2
           \<and> currentQuestionIndex st2 = 1 \<and> \<not> showExplanation st2
           \<and> selectedAnswers st2 = [(''q1'', ''a1'')])"
proof -
  let ?X = "learningStart\<lparr>selectedAnswers := [(''q1'', ''a1'')], showExplanation := True\<rparr>"
  have lm: "mode learningStart = learning"
    and idx: "currentQuestionIndex learningStart < length (questions learningStart)"
    and fresh: "\<not> showExplanation learningStart"
    by (simp_all add: learningStart_def mounted_def)
  have c: "clickAnswer ''a1'' learningStart = Inr ?X"
    by (simp add: learningStart_def mounted_def sampleQ_def clickAnswer_def showResult_def
        handleAnswerSelect_def currentQuestion_def)
  have f: "filter (\<lambda>e. e \<noteq> ClickNext \<and> e \<noteq> ClickPrevious)
             [ClickAnswer ''b1'', TimerFires, ClickNext, ClickAnswer ''b1'']
           = [ClickAnswer ''b1'', TimerFires, ClickAnswer ''b1'']"
    by simp
  have l: "currentQuestionIndex learningStart = 0" "length (questions learningStart) = 2"
    by (simp_all add: learningStart_def mounted_def)
  from learning_selection_final[OF lm idx fresh, of "''a1''" "''b1''"
         "[ClickAnswer ''b1'', TimerFires, ClickNext, ClickAnswer ''b1'']"]
  obtain st1 st2 where c1: "clickAnswer ''a1'' learningStart = Inr st1"
    and b: "clickAnswer ''b1'' st1 = Inr st1"
    and u: "uiRun [ClickAnswer ''b1'', TimerFires, ClickAnswer ''b1''] st1 = Inr st1"
    and n: "clickNext st1 = Inr st2" "currentQuestionIndex st2 = 1" "\<not> showExplanation st2"
      "selectedAnswers st2 = selectedAnswers st1"
    unfolding f l by auto
  from c c1 have e: "st1 = ?X" by simp
  have n': "\<exists>st2. clickNext ?X = Inr st2 \<and> currentQuestionIndex st2 = 1 \<and> \<not> showExplanation st2
           \<and> selectedAnswers st2 = [(''q1'', ''a1'')]"
    using n unfolding e by simp
  from lm idx fresh c b[unfolded e] u[unfolded e] n' show ?thesis
    by (intro conjI)
qed

end
